theory Spec2Isabelle
  imports Main "HOL-Library.AList" "HOL-Library.Multiset"
begin

section \<open>JSON documents and JavaScript objects\<close>

text \<open>
  The program keeps all of its state in JSON documents. A JavaScript object is modelled as
  an association list in key insertion order: \<open>map_of\<close> reads a property,
  \<open>AList.update\<close> is the assignment \<^verbatim>\<open>o[k] = v\<close> (an existing key keeps its position, a
  new key goes to the end) and \<open>AList.delete\<close> is \<^verbatim>\<open>delete o[k]\<close>. Keys are taken not to be
  canonical array indices, which JavaScript would enumerate first.
\<close>

datatype json =
    JNull
  | JBool bool
  | JNum int
  | JStr string
  | JArr "json list"
  | JObj "(string \<times> json) list"

type_synonym jobject = "(string \<times> json) list"

text \<open>The object spread \<^verbatim>\<open>{...a, ...b}\<close>: the properties of \<open>b\<close> are assigned onto \<open>a\<close> in order.\<close>

definition spread :: "('k \<times> 'v) list \<Rightarrow> ('k \<times> 'v) list \<Rightarrow> ('k \<times> 'v) list" where
  "spread a b = foldl (\<lambda>acc kv. AList.update (fst kv) (snd kv) acc) a b"

text \<open>
  A JavaScript \<^verbatim>\<open>Set\<close> keeps its elements in insertion order; \<^verbatim>\<open>[...new Set(xs)]\<close> is
  \<open>new_Set xs\<close>.
\<close>

definition set_add :: "'a list \<Rightarrow> 'a \<Rightarrow> 'a list" where
  "set_add s x = (if x \<in> set s then s else s @ [x])"

definition new_Set :: "'a list \<Rightarrow> 'a list" where
  "new_Set xs = foldl set_add [] xs"

section \<open>The metadata ledger (tracker.js)\<close>

subsection \<open>The ledger document\<close>

record entry =
  hash :: "string option"
  installedAt :: string
  sourcePath :: string

record depEntry = entry +
  requiredBy :: "string list"

record ledger =
  version :: string
  installedBy :: string
  components :: "(string \<times> (string \<times> entry) list) list"
  resolvedDeps :: "(string \<times> (string \<times> depEntry) list) list"

definition VERSION :: string where
  "VERSION = ''3.0.0''"

definition createEmptyMetadata :: ledger where
  "createEmptyMetadata =
     \<lparr> version = VERSION, installedBy = ''hands'',
       components = [(''skills'', []), (''agents'', []), (''hooks'', [])],
       resolvedDeps = [(''mcpServers'', []), (''agents'', []), (''skills'', [])] \<rparr>"

text \<open>
  The ledger file is absent (or unreadable: both are \<open>None\<close>) or holds a ledger document.
  \<open>readLedger\<close> is \<^verbatim>\<open>readMetadata\<close> on a file of the ledger's shape: the category maps of the
  file are spread over the default ones.
\<close>

definition readLedger :: "ledger option \<Rightarrow> ledger" where
  "readLedger f =
     (case f of
        None \<Rightarrow> createEmptyMetadata
      | Some data \<Rightarrow>
          data\<lparr> components := spread (components createEmptyMetadata) (components data),
                resolvedDeps := spread (resolvedDeps createEmptyMetadata) (resolvedDeps data) \<rparr>)"

definition writeMetadata :: "ledger \<Rightarrow> ledger option" where
  "writeMetadata metadata = Some metadata"

subsection \<open>Components\<close>

datatype status = Installed | Outdated | Available | Missing_env

record manifest =
  m_mcpServers :: "string list option"
  m_agent :: "string option"
  m_skills :: "string list option"

record component =
  cname :: string
  ccategory :: string
  csourcePath :: string
  ctargetPath :: string
  cmanifest :: "manifest option"
  cconfig :: jobject
  cstatus :: status

subsection \<open>Mutations: every one is a read-modify-write of the whole document\<close>

text \<open>The first argument of \<open>trackInstall\<close> and \<open>trackDependency\<close> is the clock,
  \<^verbatim>\<open>new Date().toISOString()\<close>.\<close>

definition category_map :: "(string \<times> (string \<times> 'e) list) list \<Rightarrow> string \<Rightarrow> (string \<times> 'e) list" where
  "category_map m c = (case map_of m c of None \<Rightarrow> [] | Some es \<Rightarrow> es)"

definition trackInstall :: "string \<Rightarrow> component \<Rightarrow> string option \<Rightarrow> ledger option \<Rightarrow> ledger option" where
  "trackInstall now c h f =
     (let metadata = readLedger f;
          e = \<lparr> hash = h, installedAt = now, sourcePath = csourcePath c \<rparr>
      in writeMetadata (metadata\<lparr> components :=
           AList.update (ccategory c)
             (AList.update (cname c) e (category_map (components metadata) (ccategory c)))
             (components metadata) \<rparr>))"

definition trackUninstall :: "string \<Rightarrow> string \<Rightarrow> ledger option \<Rightarrow> ledger option" where
  "trackUninstall cat n f =
     (let metadata = readLedger f
      in writeMetadata
           (case map_of (components metadata) cat of
              None \<Rightarrow> metadata
            | Some es \<Rightarrow>
                metadata\<lparr> components := AList.update cat (AList.delete n es) (components metadata) \<rparr>))"

definition trackDependency ::
  "string \<Rightarrow> string \<Rightarrow> string \<Rightarrow> string option \<Rightarrow> string \<Rightarrow> string list \<Rightarrow> ledger option \<Rightarrow> ledger option" where
  "trackDependency now cat n h src reqBy f =
     (let metadata = readLedger f;
          deps = category_map (resolvedDeps metadata) cat;
          existing = map_of deps n;
          existingRequiredBy = (case existing of None \<Rightarrow> [] | Some e \<Rightarrow> requiredBy e);
          e' = \<lparr> hash = h,
                 installedAt = (case existing of None \<Rightarrow> now | Some e \<Rightarrow> installedAt e),
                 sourcePath = src,
                 requiredBy = new_Set (existingRequiredBy @ reqBy) \<rparr>
      in writeMetadata (metadata\<lparr> resolvedDeps :=
           AList.update cat (AList.update n e' deps) (resolvedDeps metadata) \<rparr>))"

definition removeDependency :: "string \<Rightarrow> string \<Rightarrow> ledger option \<Rightarrow> ledger option" where
  "removeDependency cat n f =
     (let metadata = readLedger f
      in writeMetadata
           (case map_of (resolvedDeps metadata) cat of
              None \<Rightarrow> metadata
            | Some es \<Rightarrow>
                metadata\<lparr> resolvedDeps := AList.update cat (AList.delete n es) (resolvedDeps metadata) \<rparr>))"

subsection \<open>Queries\<close>

definition lookup2 :: "(string \<times> (string \<times> 'e) list) list \<Rightarrow> string \<Rightarrow> string \<Rightarrow> 'e option" where
  "lookup2 m c n = (case map_of m c of None \<Rightarrow> None | Some es \<Rightarrow> map_of es n)"

definition getTrackedComponents :: "string \<Rightarrow> ledger option \<Rightarrow> (string \<times> entry) list" where
  "getTrackedComponents cat f = category_map (components (readLedger f)) cat"

definition getTrackedDependencies :: "string \<Rightarrow> ledger option \<Rightarrow> (string \<times> depEntry) list" where
  "getTrackedDependencies cat f = category_map (resolvedDeps (readLedger f)) cat"

subsection \<open>Reading a raw ledger file (readMetadata)\<close>

text \<open>
  What \<^verbatim>\<open>readMetadata\<close> does with any file content. The file is missing, or cannot be
  parsed (it is empty or corrupt, \<^verbatim>\<open>fs.readJson\<close> throws), or parses to a JSON value.
  Spreading a value into an object literal copies the own enumerable properties: those of an
  object, the indexed elements of an array or string, nothing for the other primitives.
\<close>

datatype jsonFile = Missing | Unparsable | Parsed json

fun show_nat :: "nat \<Rightarrow> string" where
  "show_nat n =
     (if n < 10 then [''0123456789'' ! n]
      else show_nat (n div 10) @ [''0123456789'' ! (n mod 10)])"

fun spread_json :: "json \<Rightarrow> jobject" where
  "spread_json (JObj kvs) = kvs"
| "spread_json (JArr xs) = zip (map show_nat [0..<length xs]) xs"
| "spread_json (JStr s) = zip (map show_nat [0..<length s]) (map (\<lambda>c. JStr [c]) s)"
| "spread_json _ = []"

text \<open>
  Reading the property \<^verbatim>\<open>components\<close> or \<^verbatim>\<open>resolvedDeps\<close> of the parsed value: on
  \<^verbatim>\<open>null\<close> it throws a TypeError (\<open>None\<close>), on an object it is the property or
  \<^verbatim>\<open>undefined\<close>, on every other value it is \<^verbatim>\<open>undefined\<close>.
\<close>

fun getProp :: "json \<Rightarrow> string \<Rightarrow> json option option" where
  "getProp JNull k = None"
| "getProp (JObj kvs) k = Some (map_of kvs k)"
| "getProp _ k = Some None"

text \<open>\<^verbatim>\<open>x ?? {}\<close>\<close>

fun orEmptyObject :: "json option \<Rightarrow> json" where
  "orEmptyObject None = JObj []"
| "orEmptyObject (Some JNull) = JObj []"
| "orEmptyObject (Some v) = v"

definition emptyComponents :: jobject where
  "emptyComponents = [(''skills'', JObj []), (''agents'', JObj []), (''hooks'', JObj [])]"

definition emptyResolvedDeps :: jobject where
  "emptyResolvedDeps = [(''mcpServers'', JObj []), (''agents'', JObj []), (''skills'', JObj [])]"

definition createEmptyMetadataJson :: jobject where
  "createEmptyMetadataJson =
     [(''version'', JStr VERSION), (''installedBy'', JStr ''hands''),
      (''components'', JObj emptyComponents), (''resolvedDeps'', JObj emptyResolvedDeps)]"

definition readMetadata :: "jsonFile \<Rightarrow> jobject" where
  "readMetadata f =
     (case f of
        Missing \<Rightarrow> createEmptyMetadataJson
      | Unparsable \<Rightarrow> createEmptyMetadataJson
      | Parsed data \<Rightarrow>
          (case getProp data ''components'' of
             None \<Rightarrow> createEmptyMetadataJson
           | Some c \<Rightarrow>
               (case getProp data ''resolvedDeps'' of
                  None \<Rightarrow> createEmptyMetadataJson
                | Some r \<Rightarrow>
                    AList.update ''resolvedDeps''
                      (JObj (spread emptyResolvedDeps (spread_json (orEmptyObject r))))
                      (AList.update ''components''
                         (JObj (spread emptyComponents (spread_json (orEmptyObject c))))
                         (spread createEmptyMetadataJson (spread_json data))))))"

text \<open>The JSON document that \<^verbatim>\<open>writeMetadata\<close> serialises for a ledger.\<close>

definition entry_json :: "entry \<Rightarrow> json" where
  "entry_json e =
     JObj [(''hash'', case hash e of None \<Rightarrow> JNull | Some h \<Rightarrow> JStr h),
           (''installedAt'', JStr (installedAt e)), (''sourcePath'', JStr (sourcePath e))]"

definition depEntry_json :: "depEntry \<Rightarrow> json" where
  "depEntry_json e =
     JObj [(''hash'', case hash e of None \<Rightarrow> JNull | Some h \<Rightarrow> JStr h),
           (''installedAt'', JStr (installedAt e)), (''sourcePath'', JStr (sourcePath e)),
           (''requiredBy'', JArr (map JStr (requiredBy e)))]"

definition categories_json :: "('e \<Rightarrow> json) \<Rightarrow> (string \<times> (string \<times> 'e) list) list \<Rightarrow> jobject" where
  "categories_json enc m = map (\<lambda>ce. (fst ce, JObj (map (\<lambda>ne. (fst ne, enc (snd ne))) (snd ce)))) m"

definition ledger_json :: "ledger \<Rightarrow> jobject" where
  "ledger_json l =
     [(''version'', JStr (version l)), (''installedBy'', JStr (installedBy l)),
      (''components'', JObj (categories_json entry_json (components l))),
      (''resolvedDeps'', JObj (categories_json depEntry_json (resolvedDeps l)))]"

section \<open>Content hashes (tracker.js)\<close>

text \<open>
  A path of the file system holds a regular file with its text or a directory with its
  entries in the order \<^verbatim>\<open>fs.readdir\<close> lists them. MD5 and the collation order of
  \<^verbatim>\<open>String.prototype.localeCompare\<close> belong to the runtime; they are the parameters
  \<open>md5\<close> and \<open>le\<close> (\<open>le a b\<close> is \<^verbatim>\<open>a.localeCompare(b) <= 0\<close>).
\<close>

datatype node = File string | Dir "(string \<times> node) list"

definition join_path :: "string \<Rightarrow> string \<Rightarrow> string" where
  "join_path rel n = (if rel = [] then n else rel @ ''/'' @ n)"

definition computeFileHash :: "(string \<Rightarrow> string) \<Rightarrow> node option \<Rightarrow> string option" where
  "computeFileHash md5 p = (case p of Some (File content) \<Rightarrow> Some (md5 content) | _ \<Rightarrow> None)"

fun scan :: "string \<Rightarrow> (string \<times> node) list \<Rightarrow> (string \<times> string) list" where
  "scan relativePath [] = []"
| "scan relativePath ((n, File content) # entries) =
     (if n = ''manifest.json'' then scan relativePath entries
      else (join_path relativePath n, content) # scan relativePath entries)"
| "scan relativePath ((n, Dir sub) # entries) =
     (if n = ''manifest.json'' then scan relativePath entries
      else scan (join_path relativePath n) sub @ scan relativePath entries)"

text \<open>\<^verbatim>\<open>files.sort(...)\<close> is a stable sort by the comparator; so is insertion from the right.\<close>

fun insort_by :: "(string \<Rightarrow> string \<Rightarrow> bool) \<Rightarrow> string \<times> 'a \<Rightarrow> (string \<times> 'a) list \<Rightarrow> (string \<times> 'a) list" where
  "insort_by le x [] = [x]"
| "insort_by le x (y # ys) = (if le (fst x) (fst y) then x # y # ys else y # insort_by le x ys)"

definition sort_by :: "(string \<Rightarrow> string \<Rightarrow> bool) \<Rightarrow> (string \<times> 'a) list \<Rightarrow> (string \<times> 'a) list" where
  "sort_by le xs = foldr (insort_by le) xs []"

definition digest_input :: "(string \<times> string) list \<Rightarrow> string" where
  "digest_input files = concat (map (\<lambda>file. fst file @ [CHR 0x00] @ snd file) files)"

definition computeDirectoryHash ::
  "(string \<Rightarrow> string) \<Rightarrow> (string \<Rightarrow> string \<Rightarrow> bool) \<Rightarrow> node option \<Rightarrow> string option" where
  "computeDirectoryHash md5 le p =
     (case p of
        None \<Rightarrow> None
      | Some (File content) \<Rightarrow> computeFileHash md5 p
      | Some (Dir entries) \<Rightarrow> Some (md5 (digest_input (sort_by le (scan [] entries)))))"

text \<open>\<^verbatim>\<open>computeHash\<close>: a string is hashed as it is, anything else through \<^verbatim>\<open>JSON.stringify\<close>.\<close>

definition computeHash :: "(string \<Rightarrow> string) \<Rightarrow> (json \<Rightarrow> string) \<Rightarrow> json \<Rightarrow> string" where
  "computeHash md5 stringify content =
     md5 (case content of JStr s \<Rightarrow> s | _ \<Rightarrow> stringify content)"

section \<open>The state the sync works on\<close>

text \<open>
  The target project: its files by path, the ledger file, the shared settings document
  \<^verbatim>\<open>.claude/settings.json\<close>, the document \<^verbatim>\<open>.claude/config.json\<close> of the MCP servers, a
  clock (the number of timestamps taken so far; \<open>time k\<close> is the \<open>k\<close>-th one) and the log of
  every write to the disk, in order.
\<close>

record settings =
  s_hooks :: "(string \<times> jobject list) list option"
  s_other :: jobject

record mcpConfig =
  c_mcpServers :: "(string \<times> json) list option"
  c_other :: jobject

datatype disk_write = WriteLedger | WriteSettings | WriteConfig | CopyTo string | Remove string

record world =
  files :: "string \<Rightarrow> node option"
  ledgerFile :: "ledger option"
  settingsFile :: "settings option"
  configFile :: "mcpConfig option"
  clock :: nat
  writes :: "disk_write list"

definition trackInstallW :: "(nat \<Rightarrow> string) \<Rightarrow> component \<Rightarrow> string option \<Rightarrow> world \<Rightarrow> world" where
  "trackInstallW time c h w =
     w\<lparr> ledgerFile := trackInstall (time (clock w)) c h (ledgerFile w),
        clock := Suc (clock w), writes := writes w @ [WriteLedger] \<rparr>"

definition trackUninstallW :: "string \<Rightarrow> string \<Rightarrow> world \<Rightarrow> world" where
  "trackUninstallW cat n w =
     w\<lparr> ledgerFile := trackUninstall cat n (ledgerFile w), writes := writes w @ [WriteLedger] \<rparr>"

definition trackDependencyW ::
  "(nat \<Rightarrow> string) \<Rightarrow> string \<Rightarrow> string \<Rightarrow> string option \<Rightarrow> string \<Rightarrow> string list \<Rightarrow> world \<Rightarrow> world" where
  "trackDependencyW time cat n h src reqBy w =
     w\<lparr> ledgerFile := trackDependency (time (clock w)) cat n h src reqBy (ledgerFile w),
        clock := Suc (clock w), writes := writes w @ [WriteLedger] \<rparr>"

definition removeDependencyW :: "string \<Rightarrow> string \<Rightarrow> world \<Rightarrow> world" where
  "removeDependencyW cat n w =
     w\<lparr> ledgerFile := removeDependency cat n (ledgerFile w), writes := writes w @ [WriteLedger] \<rparr>"

section \<open>Installing file-based components (cli.js)\<close>

text \<open>
  \<^verbatim>\<open>fs.copy(src, dest)\<close> of fs-extra: a file replaces a file, a directory is merged into a
  directory entry by entry, and a file over a directory or a directory over a file is an
  error (\<open>None\<close>). With the filter, entries named \<^verbatim>\<open>manifest.json\<close> are not copied.
\<close>

fun copyNode :: "bool \<Rightarrow> node \<Rightarrow> node option \<Rightarrow> node option"
and copyEntries :: "bool \<Rightarrow> (string \<times> node) list \<Rightarrow> (string \<times> node) list \<Rightarrow> node option" where
  "copyNode flt (File c) None = Some (File c)"
| "copyNode flt (File c) (Some (File old)) = Some (File c)"
| "copyNode flt (File c) (Some (Dir old)) = None"
| "copyNode flt (Dir es) None = copyEntries flt es []"
| "copyNode flt (Dir es) (Some (File old)) = None"
| "copyNode flt (Dir es) (Some (Dir old)) = copyEntries flt es old"
| "copyEntries flt [] dest = Some (Dir dest)"
| "copyEntries flt ((n, child) # es) dest =
     (if flt \<and> n = ''manifest.json'' then copyEntries flt es dest
      else (case copyNode flt child (map_of dest n) of
              None \<Rightarrow> None
            | Some child' \<Rightarrow> copyEntries flt es (AList.update n child' dest)))"

definition basename :: "string \<Rightarrow> string" where
  "basename p = rev (takeWhile (\<lambda>c. c \<noteq> CHR ''/'') (rev p))"

definition fs_copy :: "bool \<Rightarrow> string \<Rightarrow> string \<Rightarrow> world \<Rightarrow> world option" where
  "fs_copy flt src dest w =
     (case files w src of
        None \<Rightarrow> None
      | Some s \<Rightarrow>
          if flt \<and> basename src = ''manifest.json'' then Some w
          else (case copyNode flt s (files w dest) of
                  None \<Rightarrow> None
                | Some d \<Rightarrow> Some (w\<lparr> files := (files w)(dest \<mapsto> d), writes := writes w @ [CopyTo dest] \<rparr>)))"

definition backupPath :: "string \<Rightarrow> string" where
  "backupPath targetPath = targetPath @ ''.local''"

text \<open>\<^verbatim>\<open>Hands.installFileComponent\<close>; \<open>None\<close> is an exception of \<^verbatim>\<open>fs.copy\<close>.\<close>

definition installFileComponent :: "(string \<Rightarrow> string) \<Rightarrow> component \<Rightarrow> world \<Rightarrow> (bool \<times> world) option" where
  "installFileComponent md5 c w =
     (let src = csourcePath c; tgt = ctargetPath c in
      if files w src = None then Some (False, w)
      else
        (case (if files w tgt \<noteq> None
                  \<and> computeFileHash md5 (files w src) \<noteq> computeFileHash md5 (files w tgt)
               then fs_copy False tgt (backupPath tgt) w
               else Some w) of
           None \<Rightarrow> None
         | Some w1 \<Rightarrow>
             (case fs_copy True src tgt w1 of
                None \<Rightarrow> None
              | Some w2 \<Rightarrow> Some (True, w2))))"

text \<open>\<^verbatim>\<open>RulesSync.installFile\<close> of the one-shot variant, which copies single files.\<close>

definition installFile :: "(string \<Rightarrow> string) \<Rightarrow> string \<Rightarrow> string \<Rightarrow> bool \<Rightarrow> world \<Rightarrow> (bool \<times> world) option" where
  "installFile md5 src tgt force w =
     (if files w src = None then Some (False, w)
      else
        (case (if files w tgt \<noteq> None \<and> \<not> force
                  \<and> computeFileHash md5 (files w src) \<noteq> computeFileHash md5 (files w tgt)
               then fs_copy False tgt (backupPath tgt) w
               else Some w) of
           None \<Rightarrow> None
         | Some w1 \<Rightarrow>
             (case fs_copy False src tgt w1 of
                None \<Rightarrow> None
              | Some w2 \<Rightarrow> Some (True, w2))))"

definition uninstallFileComponent :: "component \<Rightarrow> world \<Rightarrow> world" where
  "uninstallFileComponent c w =
     (if files w (ctargetPath c) \<noteq> None
      then w\<lparr> files := (files w)(ctargetPath c := None), writes := writes w @ [Remove (ctargetPath c)] \<rparr>
      else w)"

text \<open>The status of a skill or agent (\<^verbatim>\<open>getFileBasedStatus\<close> of status.js).\<close>

definition hashFn :: "(string \<Rightarrow> string) \<Rightarrow> (string \<Rightarrow> string \<Rightarrow> bool) \<Rightarrow> component \<Rightarrow> node option \<Rightarrow> string option" where
  "hashFn md5 le c p =
     (if ccategory c = ''skills'' then computeDirectoryHash md5 le p else computeFileHash md5 p)"

definition getFileBasedStatus :: "(string \<Rightarrow> string) \<Rightarrow> (string \<Rightarrow> string \<Rightarrow> bool) \<Rightarrow> component \<Rightarrow> world \<Rightarrow> status" where
  "getFileBasedStatus md5 le c w =
     (if files w (ctargetPath c) = None then Available
      else if hashFn md5 le c (files w (csourcePath c)) = hashFn md5 le c (files w (ctargetPath c))
      then Installed else Outdated)"

subsection \<open>The pass over the selected skills and agents (syncComponents)\<close>

record results =
  installed :: "string list"
  updated :: "string list"
  removed :: "string list"
  depsAdded :: "string list"
  depsRemoved :: "string list"

definition installSelected ::
  "(string \<Rightarrow> string) \<Rightarrow> (string \<Rightarrow> string \<Rightarrow> bool) \<Rightarrow> (nat \<Rightarrow> string) \<Rightarrow>
   (results \<times> world) option \<Rightarrow> component \<Rightarrow> (results \<times> world) option" where
  "installSelected md5 le time st c =
     (case st of
        None \<Rightarrow> None
      | Some (res, w) \<Rightarrow>
          if cstatus c = Available \<or> cstatus c = Outdated then
            (case installFileComponent md5 c w of
               None \<Rightarrow> None
             | Some (ok, w1) \<Rightarrow>
                 if ok then
                   Some (if cstatus c = Available
                         then res\<lparr> installed := installed res @ [cname c] \<rparr>
                         else res\<lparr> updated := updated res @ [cname c] \<rparr>,
                         trackInstallW time c (hashFn md5 le c (files w1 (csourcePath c))) w1)
                 else Some (res, w1))
          else Some (res, w))"

definition removeUnselected :: "string list \<Rightarrow> results \<times> world \<Rightarrow> component \<Rightarrow> results \<times> world" where
  "removeUnselected selectedNames st c =
     (case st of (res, w) \<Rightarrow>
        if cname c \<notin> set selectedNames \<and> (cstatus c = Installed \<or> cstatus c = Outdated)
        then (res\<lparr> removed := removed res @ [cname c] \<rparr>,
              trackUninstallW (ccategory c) (cname c) (uninstallFileComponent c w))
        else (res, w))"

definition syncCategory ::
  "(string \<Rightarrow> string) \<Rightarrow> (string \<Rightarrow> string \<Rightarrow> bool) \<Rightarrow> (nat \<Rightarrow> string) \<Rightarrow>
   component list \<Rightarrow> component list \<Rightarrow> (results \<times> world) option \<Rightarrow> (results \<times> world) option" where
  "syncCategory md5 le time selectedInCategory allInCategory st =
     (case foldl (installSelected md5 le time) st selectedInCategory of
        None \<Rightarrow> None
      | Some st1 \<Rightarrow>
          Some (foldl (removeUnselected (new_Set (map cname selectedInCategory))) st1 allInCategory))"

definition syncFileBased ::
  "(string \<Rightarrow> string) \<Rightarrow> (string \<Rightarrow> string \<Rightarrow> bool) \<Rightarrow> (nat \<Rightarrow> string) \<Rightarrow>
   component list \<Rightarrow> component list \<Rightarrow> component list \<Rightarrow> component list \<Rightarrow>
   results \<times> world \<Rightarrow> (results \<times> world) option" where
  "syncFileBased md5 le time selectedSkills allSkills selectedAgents allAgents st =
     syncCategory md5 le time selectedAgents allAgents
       (syncCategory md5 le time selectedSkills allSkills (Some st))"

section \<open>The event-handler registry (merger.js)\<close>

text \<open>
  The settings document holds, under \<^verbatim>\<open>hooks\<close>, a map from event names to arrays of handler
  objects. A handler installed by the tool carries the hook's name under \<^verbatim>\<open>_hands\<close>.
  A missing or corrupt settings file reads as the empty object.
\<close>

definition readJsonFile :: "settings option \<Rightarrow> settings" where
  "readJsonFile f = (case f of None \<Rightarrow> \<lparr> s_hooks = None, s_other = [] \<rparr> | Some content \<Rightarrow> content)"

definition getHooks :: "settings option \<Rightarrow> (string \<times> jobject list) list" where
  "getHooks f = (case s_hooks (readJsonFile f) of None \<Rightarrow> [] | Some hooks \<Rightarrow> hooks)"

definition hasMarker :: "string \<Rightarrow> jobject \<Rightarrow> bool" where
  "hasMarker hookName h = (map_of h ''_hands'' = Some (JStr hookName))"

fun findIndex :: "('a \<Rightarrow> bool) \<Rightarrow> 'a list \<Rightarrow> nat option" where
  "findIndex P [] = None"
| "findIndex P (x # xs) = (if P x then Some 0 else map_option Suc (findIndex P xs))"

text \<open>\<^verbatim>\<open>typeof handler === 'object'\<close> holds for objects, arrays and \<^verbatim>\<open>null\<close>.\<close>

fun typeof_object :: "json \<Rightarrow> bool" where
  "typeof_object (JObj kvs) = True"
| "typeof_object (JArr xs) = True"
| "typeof_object JNull = True"
| "typeof_object _ = False"

definition markedHandler :: "string \<Rightarrow> json \<Rightarrow> jobject" where
  "markedHandler hookName handler =
     (if typeof_object handler
      then AList.update ''_hands'' (JStr hookName) (spread_json handler)
      else [(''command'', handler), (''_hands'', JStr hookName)])"

fun handlerArray :: "json \<Rightarrow> json list" where
  "handlerArray (JArr handlers) = handlers"
| "handlerArray handler = [handler]"

definition mergeHandler :: "string \<Rightarrow> jobject list \<Rightarrow> json \<Rightarrow> jobject list" where
  "mergeHandler hookName lst handler =
     (case findIndex (hasMarker hookName) lst of
        Some existingIndex \<Rightarrow> lst[existingIndex := markedHandler hookName handler]
      | None \<Rightarrow> lst @ [markedHandler hookName handler])"

definition eventList :: "(string \<times> jobject list) list \<Rightarrow> string \<Rightarrow> jobject list" where
  "eventList hooks eventType = (case map_of hooks eventType of None \<Rightarrow> [] | Some lst \<Rightarrow> lst)"

definition mergeEvent :: "string \<Rightarrow> (string \<times> jobject list) list \<Rightarrow> string \<times> json \<Rightarrow> (string \<times> jobject list) list" where
  "mergeEvent hookName hooks ev =
     AList.update (fst ev)
       (foldl (mergeHandler hookName) (eventList hooks (fst ev)) (handlerArray (snd ev))) hooks"

definition mergeHook :: "string \<Rightarrow> jobject \<Rightarrow> settings option \<Rightarrow> settings option" where
  "mergeHook hookName hookConfig f =
     (let settings = readJsonFile f
      in Some (settings\<lparr> s_hooks := Some (foldl (mergeEvent hookName) (getHooks f) hookConfig) \<rparr>))"

definition removeFromEvent :: "string \<Rightarrow> (string \<times> jobject list) list \<Rightarrow> string \<Rightarrow> (string \<times> jobject list) list" where
  "removeFromEvent hookName hooks eventType =
     (case map_of hooks eventType of
        None \<Rightarrow> hooks
      | Some lst \<Rightarrow>
          if filter (\<lambda>h. \<not> hasMarker hookName h) lst = [] then AList.delete eventType hooks
          else AList.update eventType (filter (\<lambda>h. \<not> hasMarker hookName h) lst) hooks)"

text \<open>\<open>removeHook\<close> returns without writing when the document has no \<^verbatim>\<open>hooks\<close>.\<close>

definition removeHook :: "string \<Rightarrow> settings option \<Rightarrow> settings option" where
  "removeHook hookName f =
     (let settings = readJsonFile f in
      case s_hooks settings of
        None \<Rightarrow> f
      | Some hooks \<Rightarrow>
          Some (settings\<lparr> s_hooks := Some (foldl (removeFromEvent hookName) hooks (map fst hooks)) \<rparr>))"

definition hasHook :: "string \<Rightarrow> settings option \<Rightarrow> bool" where
  "hasHook hookName f = list_ex (\<lambda>ev. list_ex (hasMarker hookName) (snd ev)) (getHooks f)"

definition mergeHookW :: "string \<Rightarrow> jobject \<Rightarrow> world \<Rightarrow> world" where
  "mergeHookW hookName hookConfig w =
     w\<lparr> settingsFile := mergeHook hookName hookConfig (settingsFile w),
        writes := writes w @ [WriteSettings] \<rparr>"

definition removeHookW :: "string \<Rightarrow> world \<Rightarrow> world" where
  "removeHookW hookName w =
     (if s_hooks (readJsonFile (settingsFile w)) = None then w
      else w\<lparr> settingsFile := removeHook hookName (settingsFile w),
               writes := writes w @ [WriteSettings] \<rparr>)"

subsection \<open>syncHooks\<close>

record hookResult =
  added :: "string list"
  removed_hooks :: "string list"
  updated_hooks :: "string list"

definition syncSelectedHook ::
  "(string \<Rightarrow> string) \<Rightarrow> (json \<Rightarrow> string) \<Rightarrow> (nat \<Rightarrow> string) \<Rightarrow> (string \<times> entry) list \<Rightarrow>
   hookResult \<times> world \<Rightarrow> component \<Rightarrow> hookResult \<times> world" where
  "syncSelectedHook md5 stringify time trackedHooks st hook =
     (case st of (result, w) \<Rightarrow>
        let isNew = \<not> hasHook (cname hook) (settingsFile w);
            newHash = computeHash md5 stringify (JObj (cconfig hook));
            result' =
              (if isNew then result\<lparr> added := added result @ [cname hook] \<rparr>
               else (case map_of trackedHooks (cname hook) of
                       None \<Rightarrow> result
                     | Some tracked \<Rightarrow>
                         if hash tracked \<noteq> Some newHash
                         then result\<lparr> updated_hooks := updated_hooks result @ [cname hook] \<rparr>
                         else result))
        in (result', trackInstallW time hook (Some newHash) (mergeHookW (cname hook) (cconfig hook) w)))"

definition removeUnselectedHook :: "string list \<Rightarrow> hookResult \<times> world \<Rightarrow> string \<Rightarrow> hookResult \<times> world" where
  "removeUnselectedHook selectedNames st hookName =
     (case st of (result, w) \<Rightarrow>
        if hookName \<notin> set selectedNames
        then (result\<lparr> removed_hooks := removed_hooks result @ [hookName] \<rparr>,
              trackUninstallW ''hooks'' hookName (removeHookW hookName w))
        else (result, w))"

definition syncHooks ::
  "(string \<Rightarrow> string) \<Rightarrow> (json \<Rightarrow> string) \<Rightarrow> (nat \<Rightarrow> string) \<Rightarrow> component list \<Rightarrow>
   (string \<times> entry) list \<Rightarrow> world \<Rightarrow> hookResult \<times> world" where
  "syncHooks md5 stringify time selectedHooks trackedHooks w =
     foldl (removeUnselectedHook (new_Set (map cname selectedHooks)))
       (foldl (syncSelectedHook md5 stringify time trackedHooks)
          (\<lparr> added = [], removed_hooks = [], updated_hooks = [] \<rparr>, w) selectedHooks)
       (map fst trackedHooks)"

text \<open>
  The status of a hook (\<^verbatim>\<open>getHookStatus\<close> of status.js). The module env-validator is not among
  the sources; \<open>envValid c\<close> is the field \<^verbatim>\<open>isValid\<close> of what its \<^verbatim>\<open>validateComponentEnvVars\<close>
  returns for the component. \<^verbatim>\<open>getTrackedInfo\<close> looks in \<^verbatim>\<open>components\<close> and then in
  \<^verbatim>\<open>resolvedDeps\<close>; of the entry it finds, only the hash is read.
\<close>

definition getTrackedInfo :: "component \<Rightarrow> ledger option \<Rightarrow> string option option" where
  "getTrackedInfo c f =
     (case lookup2 (components (readLedger f)) (ccategory c) (cname c) of
        Some e \<Rightarrow> Some (hash e)
      | None \<Rightarrow> map_option hash (lookup2 (resolvedDeps (readLedger f)) (ccategory c) (cname c)))"

definition getHookStatus ::
  "(string \<Rightarrow> string) \<Rightarrow> (json \<Rightarrow> string) \<Rightarrow> (component \<Rightarrow> bool) \<Rightarrow> component \<Rightarrow> world \<Rightarrow> status" where
  "getHookStatus md5 stringify envValid c w =
     (if \<not> envValid c then Missing_env
      else if \<not> hasHook (cname c) (settingsFile w) then Available
      else (case getTrackedInfo c (ledgerFile w) of
              Some h \<Rightarrow> if h = Some (computeHash md5 stringify (JObj (cconfig c))) then Installed else Outdated
            | None \<Rightarrow> Outdated))"

section \<open>Dependency resolution (resolver.js)\<close>

text \<open>
  A JavaScript \<^verbatim>\<open>Map\<close> is an association list in insertion order; \<^verbatim>\<open>new Map(pairs)\<close> sets
  the pairs in order. The maps of required dependencies take a name to the \<^verbatim>\<open>Set\<close> of the
  skills that require it.
\<close>

definition new_Map :: "('k \<times> 'v) list \<Rightarrow> ('k \<times> 'v) list" where
  "new_Map pairs = spread [] pairs"

record renv =
  mcpServerMap :: "(string \<times> component) list"
  agentMap :: "(string \<times> component) list"
  skillMap :: "(string \<times> component) list"
  userSelectedSkillNames :: "string list"
  userSelectedAgentNames :: "string list"

record rstate =
  resolved :: "string list"
  requiredMcpServers :: "(string \<times> string list) list"
  requiredAgents :: "(string \<times> string list) list"
  requiredSkills :: "(string \<times> string list) list"
  errors :: "string list"
  warnings :: "string list"

definition add_required :: "(string \<times> string list) list \<Rightarrow> string \<Rightarrow> string \<Rightarrow> (string \<times> string list) list" where
  "add_required m k skillName =
     AList.update k (set_add (case map_of m k of None \<Rightarrow> [] | Some s \<Rightarrow> s) skillName) m"

fun join_with :: "string \<Rightarrow> string list \<Rightarrow> string" where
  "join_with sep [] = []"
| "join_with sep [x] = x"
| "join_with sep (x # y # ys) = x @ sep @ join_with sep (y # ys)"

text \<open>The separator of the chain in the error message: a space, U+2192 in UTF-8, a space.\<close>

definition arrow :: string where
  "arrow = [CHR '' '', CHR 0xE2, CHR 0x86, CHR 0x92, CHR '' '']"

definition circular_error :: "string list \<Rightarrow> string" where
  "circular_error chain = ''Circular dependency: '' @ join_with arrow chain"

definition resolveMcpServer :: "renv \<Rightarrow> string \<Rightarrow> rstate \<Rightarrow> string \<Rightarrow> rstate" where
  "resolveMcpServer env skillName st serverName =
     (if map_of (mcpServerMap env) serverName \<noteq> None
      then st\<lparr> requiredMcpServers := add_required (requiredMcpServers st) serverName skillName \<rparr>
      else st\<lparr> warnings := warnings st @
             [''Skill \"'' @ skillName @ ''\" requires MCP server \"'' @ serverName
              @ ''\" which is not in the dependency pool''] \<rparr>)"

text \<open>\<^verbatim>\<open>if (manifest.agent)\<close>: an absent or empty name is skipped.\<close>

definition resolveAgent :: "renv \<Rightarrow> string \<Rightarrow> string option \<Rightarrow> rstate \<Rightarrow> rstate" where
  "resolveAgent env skillName agent st =
     (case agent of
        None \<Rightarrow> st
      | Some agentName \<Rightarrow>
          if agentName = [] then st
          else if map_of (agentMap env) agentName \<noteq> None then
            (if agentName \<notin> set (userSelectedAgentNames env)
             then st\<lparr> requiredAgents := add_required (requiredAgents st) agentName skillName \<rparr>
             else st)
          else st\<lparr> warnings := warnings st @
                 [''Skill \"'' @ skillName @ ''\" requires agent \"'' @ agentName
                  @ ''\" which is not available''] \<rparr>)"

text \<open>
  \<open>resolveSkill\<close> recurses through the manifests. The first argument bounds the depth of the
  recursion; \<open>None\<close> means the bound was too small.
\<close>

fun resolveSkill :: "nat \<Rightarrow> renv \<Rightarrow> component \<Rightarrow> string list \<Rightarrow> rstate \<Rightarrow> rstate option"
and resolveSkillDeps :: "nat \<Rightarrow> renv \<Rightarrow> string \<Rightarrow> string list \<Rightarrow> string list \<Rightarrow> rstate \<Rightarrow> rstate option" where
  "resolveSkill 0 env skill chain st = None"
| "resolveSkill (Suc fuel) env skill chain st =
     (if cname skill \<in> set (resolved st) then Some st
      else if cname skill \<in> set chain
      then Some (st\<lparr> errors := errors st @ [circular_error (chain @ [cname skill])] \<rparr>)
      else
        (case cmanifest skill of
           None \<Rightarrow> Some (st\<lparr> resolved := set_add (resolved st) (cname skill) \<rparr>)
         | Some m \<Rightarrow>
             (case m_skills m of
                None \<Rightarrow>
                  Some (resolveAgent env (cname skill) (m_agent m)
                    (foldl (resolveMcpServer env (cname skill))
                       (st\<lparr> resolved := set_add (resolved st) (cname skill) \<rparr>)
                       (case m_mcpServers m of None \<Rightarrow> [] | Some servers \<Rightarrow> servers)))
              | Some deps \<Rightarrow>
                  resolveSkillDeps fuel env (cname skill) (chain @ [cname skill]) deps
                    (resolveAgent env (cname skill) (m_agent m)
                       (foldl (resolveMcpServer env (cname skill))
                          (st\<lparr> resolved := set_add (resolved st) (cname skill) \<rparr>)
                          (case m_mcpServers m of None \<Rightarrow> [] | Some servers \<Rightarrow> servers))))))"
| "resolveSkillDeps fuel env skillName currentChain [] st = Some st"
| "resolveSkillDeps fuel env skillName currentChain (depName # deps) st =
     (case map_of (skillMap env) depName of
        None \<Rightarrow>
          resolveSkillDeps fuel env skillName currentChain deps
            (st\<lparr> warnings := warnings st @
               [''Skill \"'' @ skillName @ ''\" requires skill \"'' @ depName
                @ ''\" which is not available''] \<rparr>)
      | Some dep \<Rightarrow>
          (case resolveSkill fuel env dep currentChain
                  (if depName \<notin> set (userSelectedSkillNames env)
                   then st\<lparr> requiredSkills := add_required (requiredSkills st) depName skillName \<rparr>
                   else st) of
             None \<Rightarrow> None
           | Some st' \<Rightarrow> resolveSkillDeps fuel env skillName currentChain deps st'))"

fun resolveSelected :: "nat \<Rightarrow> renv \<Rightarrow> component list \<Rightarrow> rstate \<Rightarrow> rstate option" where
  "resolveSelected fuel env [] st = Some st"
| "resolveSelected fuel env (skill # skills) st =
     (case resolveSkill fuel env skill [] st of
        None \<Rightarrow> None
      | Some st' \<Rightarrow> resolveSelected fuel env skills st')"

text \<open>
  The second loop walks \<open>requiredSkills\<close> while \<open>resolveSkill\<close> may still add to it; a \<^verbatim>\<open>Map\<close>
  iterator visits entries added during the iteration, so the loop runs by index.
\<close>

fun resolveRequired :: "nat \<Rightarrow> nat \<Rightarrow> renv \<Rightarrow> nat \<Rightarrow> rstate \<Rightarrow> rstate option" where
  "resolveRequired 0 fuel env i st = (if i < length (requiredSkills st) then None else Some st)"
| "resolveRequired (Suc k) fuel env i st =
     (if i < length (requiredSkills st) then
        (case snd (requiredSkills st ! i) of
           [] \<Rightarrow> resolveRequired k fuel env (Suc i) st
         | first # others \<Rightarrow>
             (case map_of (skillMap env) first of
                None \<Rightarrow> resolveRequired k fuel env (Suc i) st
              | Some depSkill \<Rightarrow>
                  (case resolveSkill fuel env depSkill [] st of
                     None \<Rightarrow> None
                   | Some st' \<Rightarrow> resolveRequired k fuel env (Suc i) st')))
      else Some st)"

record resolution =
  r_mcpServers :: "(component option \<times> string list) list"
  r_agents :: "(component option \<times> string list) list"
  r_skills :: "(component option \<times> string list) list"
  r_errors :: "string list"
  r_warnings :: "string list"

definition resolveDependencies ::
  "nat \<Rightarrow> component list \<Rightarrow> component list \<Rightarrow> component list \<Rightarrow> component list \<Rightarrow> component list \<Rightarrow>
   resolution option" where
  "resolveDependencies fuel selectedSkills allSkills selectedAgents allAgents poolMcpServers =
     (let env = \<lparr> mcpServerMap = new_Map (map (\<lambda>s. (cname s, s)) poolMcpServers),
                  agentMap = new_Map (map (\<lambda>a. (cname a, a)) allAgents),
                  skillMap = new_Map (map (\<lambda>s. (cname s, s)) allSkills),
                  userSelectedSkillNames = new_Set (map cname selectedSkills),
                  userSelectedAgentNames = new_Set (map cname selectedAgents) \<rparr>;
          st0 = \<lparr> resolved = [], requiredMcpServers = [], requiredAgents = [],
                  requiredSkills = [], errors = [], warnings = [] \<rparr>
      in case resolveSelected fuel env selectedSkills st0 of
           None \<Rightarrow> None
         | Some st1 \<Rightarrow>
             (case resolveRequired fuel fuel env 0 st1 of
                None \<Rightarrow> None
              | Some st2 \<Rightarrow>
                  Some \<lparr> r_mcpServers = map (\<lambda>nr. (map_of (mcpServerMap env) (fst nr), snd nr)) (requiredMcpServers st2),
                         r_agents = map (\<lambda>nr. (map_of (agentMap env) (fst nr), snd nr)) (requiredAgents st2),
                         r_skills = map (\<lambda>nr. (map_of (skillMap env) (fst nr), snd nr)) (requiredSkills st2),
                         r_errors = errors st2, r_warnings = warnings st2 \<rparr>))"

text \<open>
  The head of \<^verbatim>\<open>syncComponents\<close>: with a resolution error it returns the empty results before
  anything is installed.
\<close>

definition abortsOnErrors :: "resolution \<Rightarrow> bool" where
  "abortsOnErrors resolution = (length (r_errors resolution) > 0)"

section \<open>Orphaned dependencies (resolver.js, cli.js)\<close>

definition stillNeeded :: "string list \<Rightarrow> depEntry \<Rightarrow> bool" where
  "stillNeeded currentSkillNames info = list_ex (\<lambda>s. s \<in> set currentSkillNames) (requiredBy info)"

definition orphansIn :: "ledger \<Rightarrow> string list \<Rightarrow> string \<Rightarrow> (string \<times> depEntry) list" where
  "orphansIn metadata currentSkillNames cat =
     filter (\<lambda>dep. \<not> stillNeeded currentSkillNames (snd dep)) (category_map (resolvedDeps metadata) cat)"

record orphans =
  o_mcpServers :: "(string \<times> depEntry) list"
  o_agents :: "(string \<times> depEntry) list"
  o_skills :: "(string \<times> depEntry) list"

definition findOrphans :: "ledger \<Rightarrow> string list \<Rightarrow> orphans" where
  "findOrphans metadata currentSkillNames =
     \<lparr> o_mcpServers = orphansIn metadata currentSkillNames ''mcpServers'',
       o_agents = orphansIn metadata currentSkillNames ''agents'',
       o_skills = orphansIn metadata currentSkillNames ''skills'' \<rparr>"

text \<open>
  The start of \<^verbatim>\<open>cleanupOrphans\<close>: the names of the selected skills, to which one pass over
  the auto-resolved skills of the ledger adds those that are still needed; then \<open>findOrphans\<close>.
\<close>

definition currentSkillNames :: "component list \<Rightarrow> ledger \<Rightarrow> string list" where
  "currentSkillNames selectedSkills metadata =
     foldl (\<lambda>cur dep. if stillNeeded cur (snd dep) then set_add cur (fst dep) else cur)
       (new_Set (map cname selectedSkills))
       (category_map (resolvedDeps metadata) ''skills'')"

definition orphanCandidates :: "component list \<Rightarrow> ledger option \<Rightarrow> orphans" where
  "orphanCandidates selectedSkills f =
     (let metadata = readLedger f in findOrphans metadata (currentSkillNames selectedSkills metadata))"

section \<open>The sync (cli.js, status.js, merger.js)\<close>

subsection \<open>The MCP servers of config.json\<close>

definition readConfig :: "mcpConfig option \<Rightarrow> mcpConfig" where
  "readConfig f = (case f of None \<Rightarrow> \<lparr> c_mcpServers = None, c_other = [] \<rparr> | Some content \<Rightarrow> content)"

definition addMcpServer :: "string \<Rightarrow> json \<Rightarrow> mcpConfig option \<Rightarrow> mcpConfig option" where
  "addMcpServer serverName serverConfig f =
     (let config = readConfig f
      in Some (config\<lparr> c_mcpServers :=
           Some (AList.update serverName serverConfig
                  (case c_mcpServers config of None \<Rightarrow> [] | Some servers \<Rightarrow> servers)) \<rparr>))"

definition removeMcpServer :: "string \<Rightarrow> mcpConfig option \<Rightarrow> mcpConfig option" where
  "removeMcpServer serverName f =
     (let config = readConfig f
      in Some (case c_mcpServers config of
                 None \<Rightarrow> config
               | Some servers \<Rightarrow> config\<lparr> c_mcpServers := Some (AList.delete serverName servers) \<rparr>))"

definition addMcpServerW :: "string \<Rightarrow> json \<Rightarrow> world \<Rightarrow> world" where
  "addMcpServerW serverName serverConfig w =
     w\<lparr> configFile := addMcpServer serverName serverConfig (configFile w),
        writes := writes w @ [WriteConfig] \<rparr>"

definition removeMcpServerW :: "string \<Rightarrow> world \<Rightarrow> world" where
  "removeMcpServerW serverName w =
     w\<lparr> configFile := removeMcpServer serverName (configFile w), writes := writes w @ [WriteConfig] \<rparr>"

subsection \<open>The status of the components (addStatusToComponents)\<close>

text \<open>
  The detector gives skills and agents the type \<^verbatim>\<open>FILE_BASED\<close> and hooks the type
  \<^verbatim>\<open>JSON_ENTRY\<close>, so \<^verbatim>\<open>getComponentStatus\<close> sends hooks to \<open>getHookStatus\<close> and every other
  component to \<open>getFileBasedStatus\<close>.
\<close>

definition getComponentStatus ::
  "(string \<Rightarrow> string) \<Rightarrow> (string \<Rightarrow> string \<Rightarrow> bool) \<Rightarrow> (json \<Rightarrow> string) \<Rightarrow> (component \<Rightarrow> bool) \<Rightarrow>
   component \<Rightarrow> world \<Rightarrow> status" where
  "getComponentStatus md5 le stringify envValid c w =
     (if ccategory c = ''hooks'' then getHookStatus md5 stringify envValid c w
      else getFileBasedStatus md5 le c w)"

definition addStatusToComponents ::
  "(string \<Rightarrow> string) \<Rightarrow> (string \<Rightarrow> string \<Rightarrow> bool) \<Rightarrow> (json \<Rightarrow> string) \<Rightarrow> (component \<Rightarrow> bool) \<Rightarrow>
   world \<Rightarrow> component list \<Rightarrow> component list" where
  "addStatusToComponents md5 le stringify envValid w items =
     map (\<lambda>c. c\<lparr> cstatus := getComponentStatus md5 le stringify envValid c w \<rparr>) items"

subsection \<open>Installing the resolved dependencies\<close>

text \<open>
  The questions the tool asks, and \<open>answer\<close>, what the user replies. An entry of the resolution
  whose name is in none of the pools has no paths, and installing it raises (\<open>None\<close>); the
  resolver only lists names that it found.
\<close>

datatype prompt =
    InstallDependencies bool
  | InstallHookAnyway string
  | RemoveMcpServer string
  | RemoveAgent string
  | RemoveSkill string

definition installMcpDependency ::
  "(string \<Rightarrow> string) \<Rightarrow> (json \<Rightarrow> string) \<Rightarrow> (nat \<Rightarrow> string) \<Rightarrow>
   (results \<times> world) option \<Rightarrow> component option \<times> string list \<Rightarrow> (results \<times> world) option" where
  "installMcpDependency md5 stringify time st mcpDep =
     (case st of
        None \<Rightarrow> None
      | Some (res, w) \<Rightarrow>
          (case fst mcpDep of
             None \<Rightarrow> None
           | Some dep \<Rightarrow>
               Some (res\<lparr> depsAdded := depsAdded res @ [cname dep @ '' (mcp)''] \<rparr>,
                     trackDependencyW time ''mcpServers'' (cname dep)
                       (Some (computeHash md5 stringify (JObj (cconfig dep)))) (csourcePath dep) (snd mcpDep)
                       (addMcpServerW (cname dep) (JObj (cconfig dep)) w))))"

definition installAgentDependency ::
  "(string \<Rightarrow> string) \<Rightarrow> (nat \<Rightarrow> string) \<Rightarrow>
   (results \<times> world) option \<Rightarrow> component option \<times> string list \<Rightarrow> (results \<times> world) option" where
  "installAgentDependency md5 time st agentDep =
     (case st of
        None \<Rightarrow> None
      | Some (res, w) \<Rightarrow>
          (case fst agentDep of
             None \<Rightarrow> None
           | Some dep \<Rightarrow>
               (case installFileComponent md5 dep w of
                  None \<Rightarrow> None
                | Some (ok, w1) \<Rightarrow>
                    if ok then
                      Some (res\<lparr> depsAdded := depsAdded res @ [cname dep @ '' (agent)''] \<rparr>,
                            trackDependencyW time ''agents'' (cname dep)
                              (computeFileHash md5 (files w1 (csourcePath dep))) (csourcePath dep)
                              (snd agentDep) w1)
                    else Some (res, w1))))"

definition installDependencies ::
  "(string \<Rightarrow> string) \<Rightarrow> (json \<Rightarrow> string) \<Rightarrow> (nat \<Rightarrow> string) \<Rightarrow> resolution \<Rightarrow>
   results \<times> world \<Rightarrow> (results \<times> world) option" where
  "installDependencies md5 stringify time resolution st =
     foldl (installAgentDependency md5 time)
       (foldl (installMcpDependency md5 stringify time) (Some st) (r_mcpServers resolution))
       (r_agents resolution)"

text \<open>The loop of \<^verbatim>\<open>syncComponents\<close> over the auto-resolved skills; it asks no question.\<close>

definition installSkillDependency ::
  "(string \<Rightarrow> string) \<Rightarrow> (string \<Rightarrow> string \<Rightarrow> bool) \<Rightarrow> (nat \<Rightarrow> string) \<Rightarrow>
   (results \<times> world) option \<Rightarrow> component option \<times> string list \<Rightarrow> (results \<times> world) option" where
  "installSkillDependency md5 le time st depSkill =
     (case st of
        None \<Rightarrow> None
      | Some (res, w) \<Rightarrow>
          (case fst depSkill of
             None \<Rightarrow> None
           | Some dep \<Rightarrow>
               (case installFileComponent md5 dep w of
                  None \<Rightarrow> None
                | Some (ok, w1) \<Rightarrow>
                    if ok then
                      Some (res\<lparr> depsAdded := depsAdded res @ [cname dep @ '' (skill)''] \<rparr>,
                            trackDependencyW time ''skills'' (cname dep)
                              (computeDirectoryHash md5 le (files w1 (csourcePath dep))) (csourcePath dep)
                              (snd depSkill) w1)
                    else Some (res, w1))))"

subsection \<open>Removing the orphans (cleanupOrphans)\<close>

definition removeFile :: "string \<Rightarrow> world \<Rightarrow> world" where
  "removeFile targetPath w =
     (if files w targetPath \<noteq> None
      then w\<lparr> files := (files w)(targetPath := None), writes := writes w @ [Remove targetPath] \<rparr>
      else w)"

definition removeOrphanMcpServer ::
  "(prompt \<Rightarrow> bool) \<Rightarrow> results \<times> world \<Rightarrow> string \<times> depEntry \<Rightarrow> results \<times> world" where
  "removeOrphanMcpServer answer st orphan =
     (case st of (res, w) \<Rightarrow>
        if answer (RemoveMcpServer (fst orphan))
        then (res\<lparr> depsRemoved := depsRemoved res @ [fst orphan @ '' (mcp)''] \<rparr>,
              removeDependencyW ''mcpServers'' (fst orphan) (removeMcpServerW (fst orphan) w))
        else (res, w))"

definition removeOrphanAgent ::
  "(prompt \<Rightarrow> bool) \<Rightarrow> results \<times> world \<Rightarrow> string \<times> depEntry \<Rightarrow> results \<times> world" where
  "removeOrphanAgent answer st orphan =
     (case st of (res, w) \<Rightarrow>
        if answer (RemoveAgent (fst orphan))
        then (res\<lparr> depsRemoved := depsRemoved res @ [fst orphan @ '' (agent)''] \<rparr>,
              removeDependencyW ''agents'' (fst orphan)
                (removeFile (''.claude/agents/'' @ fst orphan @ ''.md'') w))
        else (res, w))"

definition removeOrphanSkill ::
  "(prompt \<Rightarrow> bool) \<Rightarrow> results \<times> world \<Rightarrow> string \<times> depEntry \<Rightarrow> results \<times> world" where
  "removeOrphanSkill answer st orphan =
     (case st of (res, w) \<Rightarrow>
        if answer (RemoveSkill (fst orphan))
        then (res\<lparr> depsRemoved := depsRemoved res @ [fst orphan @ '' (skill)''] \<rparr>,
              removeDependencyW ''skills'' (fst orphan) (removeFile (''.claude/skills/'' @ fst orphan) w))
        else (res, w))"

definition cleanupOrphans :: "(prompt \<Rightarrow> bool) \<Rightarrow> component list \<Rightarrow> results \<times> world \<Rightarrow> results \<times> world" where
  "cleanupOrphans answer selectedSkills st =
     (let orphans = orphanCandidates selectedSkills (ledgerFile (snd st))
      in foldl (removeOrphanSkill answer)
           (foldl (removeOrphanAgent answer)
              (foldl (removeOrphanMcpServer answer) st (o_mcpServers orphans))
              (o_agents orphans))
           (o_skills orphans))"

subsection \<open>syncComponents\<close>

text \<open>
  A selected hook whose environment is not valid stays selected only when the user says so.
\<close>

definition confirmHook ::
  "(component \<Rightarrow> bool) \<Rightarrow> (prompt \<Rightarrow> bool) \<Rightarrow> component list \<Rightarrow> component \<Rightarrow> component list" where
  "confirmHook envValid answer selectedHooks hook =
     (if \<not> envValid hook \<and> \<not> answer (InstallHookAnyway (cname hook))
      then filter (\<lambda>h. cname h \<noteq> cname hook) selectedHooks
      else selectedHooks)"

definition syncSelectedHooks ::
  "(string \<Rightarrow> string) \<Rightarrow> (json \<Rightarrow> string) \<Rightarrow> (nat \<Rightarrow> string) \<Rightarrow> (component \<Rightarrow> bool) \<Rightarrow> (prompt \<Rightarrow> bool) \<Rightarrow>
   component list \<Rightarrow> component list \<Rightarrow> results \<times> world \<Rightarrow> results \<times> world" where
  "syncSelectedHooks md5 stringify time envValid answer selectedHooks allHooks st =
     (case st of (res, w) \<Rightarrow>
        if allHooks = [] then (res, w)
        else
          (let hooks = foldl (confirmHook envValid answer) selectedHooks selectedHooks;
               trackedHooks = getTrackedComponents ''hooks'' (ledgerFile w);
               hr = syncHooks md5 stringify time hooks trackedHooks w
           in (res\<lparr> installed := installed res @ added (fst hr),
                     updated := updated res @ updated_hooks (fst hr),
                     removed := removed res @ removed_hooks (fst hr) \<rparr>,
               snd hr)))"

text \<open>
  \<open>syncComponents\<close>. The result is \<open>None\<close> when a copy raises or when the bound on the depth of
  the resolution is too small.
\<close>

definition syncComponents ::
  "(string \<Rightarrow> string) \<Rightarrow> (string \<Rightarrow> string \<Rightarrow> bool) \<Rightarrow> (json \<Rightarrow> string) \<Rightarrow> (nat \<Rightarrow> string) \<Rightarrow>
   (component \<Rightarrow> bool) \<Rightarrow> (prompt \<Rightarrow> bool) \<Rightarrow> nat \<Rightarrow>
   component list \<Rightarrow> component list \<Rightarrow> component list \<Rightarrow> component list \<Rightarrow> component list \<Rightarrow>
   world \<Rightarrow> (results \<times> world) option" where
  "syncComponents md5 le stringify time envValid answer fuel
       selectedComponents allSkills allAgents allHooks poolMcpServers w =
     (let selectedSkills = filter (\<lambda>c. ccategory c = ''skills'') selectedComponents;
          selectedAgents = filter (\<lambda>c. ccategory c = ''agents'') selectedComponents;
          selectedHooks = filter (\<lambda>c. ccategory c = ''hooks'') selectedComponents;
          results = \<lparr> installed = [], updated = [], removed = [], depsAdded = [], depsRemoved = [] \<rparr>
      in case resolveDependencies fuel selectedSkills allSkills selectedAgents allAgents poolMcpServers of
           None \<Rightarrow> None
         | Some resolution \<Rightarrow>
             if abortsOnErrors resolution then Some (results, w)
             else
               (let hasDeps = (r_mcpServers resolution \<noteq> [] \<or> r_agents resolution \<noteq> []
                               \<or> r_skills resolution \<noteq> []);
                    envIssues = list_ex (\<lambda>mcpDep. case fst mcpDep of None \<Rightarrow> False | Some dep \<Rightarrow> \<not> envValid dep)
                                  (r_mcpServers resolution)
                in case (if hasDeps \<and> answer (InstallDependencies envIssues)
                         then installDependencies md5 stringify time resolution (results, w)
                         else Some (results, w)) of
                     None \<Rightarrow> None
                   | Some st1 \<Rightarrow>
                       (case foldl (installSkillDependency md5 le time) (Some st1) (r_skills resolution) of
                          None \<Rightarrow> None
                        | Some st2 \<Rightarrow>
                            (case syncFileBased md5 le time selectedSkills allSkills selectedAgents allAgents st2 of
                               None \<Rightarrow> None
                             | Some st3 \<Rightarrow>
                                 Some (cleanupOrphans answer selectedSkills
                                         (syncSelectedHooks md5 stringify time envValid answer
                                            selectedHooks allHooks st3))))))"

text \<open>
  \<open>run\<close>: the components that the detector found get their status from the target project,
  the user selects among them (\<open>chosen\<close>, by category and name), and the selection is synced.
\<close>

definition run ::
  "(string \<Rightarrow> string) \<Rightarrow> (string \<Rightarrow> string \<Rightarrow> bool) \<Rightarrow> (json \<Rightarrow> string) \<Rightarrow> (nat \<Rightarrow> string) \<Rightarrow>
   (component \<Rightarrow> bool) \<Rightarrow> (prompt \<Rightarrow> bool) \<Rightarrow> nat \<Rightarrow>
   (string \<times> string) list \<Rightarrow> component list \<Rightarrow> component list \<Rightarrow> component list \<Rightarrow> component list \<Rightarrow>
   world \<Rightarrow> (results \<times> world) option" where
  "run md5 le stringify time envValid answer fuel chosen skills agents hooks poolMcpServers w =
     (if skills @ agents @ hooks = []
      then Some (\<lparr> installed = [], updated = [], removed = [], depsAdded = [], depsRemoved = [] \<rparr>, w)
      else
        (let allSkills = addStatusToComponents md5 le stringify envValid w skills;
             allAgents = addStatusToComponents md5 le stringify envValid w agents;
             allHooks = addStatusToComponents md5 le stringify envValid w hooks;
             selectedComponents =
               filter (\<lambda>c. (ccategory c, cname c) \<in> set chosen) (allSkills @ allAgents @ allHooks)
         in syncComponents md5 le stringify time envValid answer fuel
              selectedComponents allSkills allAgents allHooks poolMcpServers w))"

section \<open>Notions the properties are stated with\<close>

subsection \<open>Ledger\<close>

text \<open>What a reader of the ledger file sees for a category and a name.\<close>

definition trackedComponent :: "ledger option \<Rightarrow> string \<Rightarrow> string \<Rightarrow> entry option" where
  "trackedComponent f cat n = lookup2 (components (readLedger f)) cat n"

definition trackedDependency :: "ledger option \<Rightarrow> string \<Rightarrow> string \<Rightarrow> depEntry option" where
  "trackedDependency f cat n = lookup2 (resolvedDeps (readLedger f)) cat n"

definition inBoth :: "ledger option \<Rightarrow> string \<Rightarrow> string \<Rightarrow> bool" where
  "inBoth f cat n = (trackedComponent f cat n \<noteq> None \<and> trackedDependency f cat n \<noteq> None)"

datatype mutation =
    TrackInstall string component "string option"
  | TrackUninstall string string
  | TrackDependency string string string "string option" string "string list"
  | RemoveDependency string string

fun mutate :: "ledger option \<Rightarrow> mutation \<Rightarrow> ledger option" where
  "mutate f (TrackInstall now c h) = trackInstall now c h f"
| "mutate f (TrackUninstall cat n) = trackUninstall cat n f"
| "mutate f (TrackDependency now cat n h src reqBy) = trackDependency now cat n h src reqBy f"
| "mutate f (RemoveDependency cat n) = removeDependency cat n f"

text \<open>
  What a sequence of mutations says about a category and a name, without looking at the
  ledger: the pair is selected when the last \<open>trackInstall\<close> or \<open>trackUninstall\<close> of the pair is
  a \<open>trackInstall\<close>, and required when the last \<open>trackDependency\<close> or \<open>removeDependency\<close> of the
  pair is a \<open>trackDependency\<close>.
\<close>

fun selectionStep :: "string \<Rightarrow> string \<Rightarrow> bool \<Rightarrow> mutation \<Rightarrow> bool" where
  "selectionStep cat n before (TrackInstall now c h) = (before \<or> (ccategory c = cat \<and> cname c = n))"
| "selectionStep cat n before (TrackUninstall cat' n') = (before \<and> \<not> (cat' = cat \<and> n' = n))"
| "selectionStep cat n before (TrackDependency now cat' n' h src reqBy) = before"
| "selectionStep cat n before (RemoveDependency cat' n') = before"

fun dependencyStep :: "string \<Rightarrow> string \<Rightarrow> bool \<Rightarrow> mutation \<Rightarrow> bool" where
  "dependencyStep cat n before (TrackInstall now c h) = before"
| "dependencyStep cat n before (TrackUninstall cat' n') = before"
| "dependencyStep cat n before (TrackDependency now cat' n' h src reqBy) = (before \<or> (cat' = cat \<and> n' = n))"
| "dependencyStep cat n before (RemoveDependency cat' n') = (before \<and> \<not> (cat' = cat \<and> n' = n))"

definition currentlySelected :: "mutation list \<Rightarrow> string \<Rightarrow> string \<Rightarrow> bool" where
  "currentlySelected ms cat n = foldl (selectionStep cat n) False ms"

definition currentlyRequired :: "mutation list \<Rightarrow> string \<Rightarrow> string \<Rightarrow> bool" where
  "currentlyRequired ms cat n = foldl (dependencyStep cat n) False ms"

text \<open>A ledger object is structurally complete when every key of the schema is there.\<close>

definition hasKeys :: "string list \<Rightarrow> json option \<Rightarrow> bool" where
  "hasKeys ks v = (case v of Some (JObj kvs) \<Rightarrow> list_all (\<lambda>k. map_of kvs k \<noteq> None) ks | _ \<Rightarrow> False)"

definition structurallyComplete :: "jobject \<Rightarrow> bool" where
  "structurallyComplete doc =
     (map_of doc ''version'' \<noteq> None \<and> map_of doc ''installedBy'' \<noteq> None
      \<and> hasKeys [''skills'', ''agents'', ''hooks''] (map_of doc ''components'')
      \<and> hasKeys [''mcpServers'', ''agents'', ''skills''] (map_of doc ''resolvedDeps''))"

text \<open>\<open>overlay d v\<close>: the value of a key that the file gives as \<open>v\<close> and the defaults as \<open>d\<close>.\<close>

definition overlay :: "'a option \<Rightarrow> 'a option \<Rightarrow> 'a option" where
  "overlay d v = (case v of None \<Rightarrow> d | Some x \<Rightarrow> Some x)"

subsection \<open>Directory hash\<close>

text \<open>
  Every regular file below a directory, with the names that lead to it; the files that are
  hashed are those with no \<^verbatim>\<open>manifest.json\<close> on the way, under the joined path.
\<close>

fun allFiles :: "string list \<Rightarrow> (string \<times> node) list \<Rightarrow> (string list \<times> string) list" where
  "allFiles ps [] = []"
| "allFiles ps ((n, File content) # entries) = (ps @ [n], content) # allFiles ps entries"
| "allFiles ps ((n, Dir sub) # entries) = allFiles (ps @ [n]) sub @ allFiles ps entries"

definition pathString :: "string list \<Rightarrow> string" where
  "pathString ps = foldl join_path [] ps"

definition hashedFiles :: "(string \<times> node) list \<Rightarrow> (string \<times> string) set" where
  "hashedFiles entries =
     (\<lambda>pc. (pathString (fst pc), snd pc)) `
       {pc \<in> set (allFiles [] entries). ''manifest.json'' \<notin> set (fst pc)}"

text \<open>The same directory with its entries listed in another order, at any depth.\<close>

inductive reordered :: "node \<Rightarrow> node \<Rightarrow> bool" where
  same: "reordered t t"
| swap: "reordered (Dir (xs @ a # b # ys)) (Dir (xs @ b # a # ys))"
| inside: "reordered t t' \<Longrightarrow> reordered (Dir (xs @ (n, t) # ys)) (Dir (xs @ (n, t') # ys))"
| step: "reordered t t' \<Longrightarrow> reordered t' t'' \<Longrightarrow> reordered t t''"

text \<open>The comparator is a linear order on the paths that are compared.\<close>

definition linearOn :: "string list \<Rightarrow> (string \<Rightarrow> string \<Rightarrow> bool) \<Rightarrow> bool" where
  "linearOn ps le =
     (list_all (\<lambda>a. list_all (\<lambda>b. (le a b \<or> le b a) \<and> (le a b \<and> le b a \<longrightarrow> a = b)) ps) ps
      \<and> list_all (\<lambda>a. list_all (\<lambda>b. list_all (\<lambda>c. le a b \<and> le b c \<longrightarrow> le a c) ps) ps) ps)"

definition relPaths :: "(string \<times> node) list \<Rightarrow> string list" where
  "relPaths entries = map fst (scan [] entries)"

text \<open>The lexicographic order of strings by character code.\<close>

fun lexicographic :: "string \<Rightarrow> string \<Rightarrow> bool" where
  "lexicographic [] b = True"
| "lexicographic (x # a) [] = False"
| "lexicographic (x # a) (y # b) =
     ((of_char x :: nat) < of_char y \<or> (x = y \<and> lexicographic a b))"

text \<open>
  The collation of \<^verbatim>\<open>localeCompare\<close> compares letters without regard to case before anything
  else, so that \<^verbatim>\<open>'b.md'.localeCompare('SKILL.md')\<close> is negative. \<open>caseFolded\<close> is such an
  order on ASCII paths.
\<close>

definition lower :: "char \<Rightarrow> char" where
  "lower c =
     (case map_of (zip ''ABCDEFGHIJKLMNOPQRSTUVWXYZ'' ''abcdefghijklmnopqrstuvwxyz'') c of
        None \<Rightarrow> c
      | Some l \<Rightarrow> l)"

definition caseFolded :: "string \<Rightarrow> string \<Rightarrow> bool" where
  "caseFolded a b = lexicographic (map lower a) (map lower b)"

subsection \<open>Event-handler registry\<close>

definition ownerMarkers :: "jobject list \<Rightarrow> string list" where
  "ownerMarkers lst =
     List.map_filter (\<lambda>h. case map_of h ''_hands'' of Some (JStr s) \<Rightarrow> Some s | _ \<Rightarrow> None) lst"

definition uniqueIn :: "(string \<times> jobject list) list \<Rightarrow> bool" where
  "uniqueIn hooks = list_all (\<lambda>ev. distinct (ownerMarkers (snd ev))) hooks"

definition uniqueMarkers :: "settings option \<Rightarrow> bool" where
  "uniqueMarkers f = list_all (\<lambda>ev. distinct (ownerMarkers (snd ev))) (getHooks f)"

definition markedCount :: "string \<Rightarrow> settings option \<Rightarrow> string \<Rightarrow> nat" where
  "markedCount hookName f eventType =
     length (filter (hasMarker hookName) (eventList (getHooks f) eventType))"

subsection \<open>Orphans\<close>

text \<open>
  The skills that are retained after a sync: the selected ones, and every auto-resolved skill
  of the ledger that a retained skill requires.
\<close>

inductive_set retained :: "string list \<Rightarrow> (string \<times> depEntry) list \<Rightarrow> string set"
  for selectedNames :: "string list" and skillDeps :: "(string \<times> depEntry) list" where
  selected: "s \<in> set selectedNames \<Longrightarrow> s \<in> retained selectedNames skillDeps"
| required: "(n, info) \<in> set skillDeps \<Longrightarrow> r \<in> set (requiredBy info)
             \<Longrightarrow> r \<in> retained selectedNames skillDeps \<Longrightarrow> n \<in> retained selectedNames skillDeps"


section \<open>Example inputs\<close>

text \<open>Two skills that require each other.\<close>

definition cyclicA :: component where
  "cyclicA = \<lparr> cname = ''A'', ccategory = ''skills'', csourcePath = ''rules/.claude/skills/A'',
      ctargetPath = ''.claude/skills/A'',
      cmanifest = Some \<lparr> m_mcpServers = None, m_agent = None, m_skills = Some [''B''] \<rparr>,
      cconfig = [], cstatus = Available \<rparr>"

definition cyclicB :: component where
  "cyclicB = \<lparr> cname = ''B'', ccategory = ''skills'', csourcePath = ''rules/.claude/skills/B'',
      ctargetPath = ''.claude/skills/B'',
      cmanifest = Some \<lparr> m_mcpServers = None, m_agent = None, m_skills = Some [''A''] \<rparr>,
      cconfig = [], cstatus = Available \<rparr>"

text \<open>
  The dependency tracking of two runs. In the first, the selected skill \<open>Y\<close> requires the
  skill \<open>D2\<close>, which requires the endpoint \<open>M\<close>. In the second, \<open>X\<close> is selected instead; it
  requires the skill \<open>D1\<close>, which requires \<open>D2\<close>.
\<close>

definition twoRuns :: "mutation list" where
  "twoRuns =
     [TrackDependency ''t1'' ''mcpServers'' ''M'' (Some ''hm'') ''rules/.claude/mcp-servers/M.json'' [''D2''],
      TrackDependency ''t2'' ''skills'' ''D2'' (Some ''h2'') ''rules/.claude/skills/D2'' [''Y''],
      TrackDependency ''t3'' ''mcpServers'' ''M'' (Some ''hm'') ''rules/.claude/mcp-servers/M.json'' [''D2''],
      TrackDependency ''t4'' ''skills'' ''D1'' (Some ''h1'') ''rules/.claude/skills/D1'' [''X''],
      TrackDependency ''t5'' ''skills'' ''D2'' (Some ''h2'') ''rules/.claude/skills/D2'' [''D1'']]"


definition skillX :: component where
  "skillX = \<lparr> cname = ''X'', ccategory = ''skills'', csourcePath = ''rules/.claude/skills/X'',
      ctargetPath = ''.claude/skills/X'',
      cmanifest = Some \<lparr> m_mcpServers = None, m_agent = None, m_skills = Some [''D1''] \<rparr>,
      cconfig = [], cstatus = Available \<rparr>"

text \<open>
  The skill \<open>a\<close> is selected and then tracked as a dependency as well; and the skill \<open>a\<close> is
  selected, deselected and only then tracked as a dependency.
\<close>

definition skillA :: component where
  "skillA = \<lparr> cname = ''a'', ccategory = ''skills'', csourcePath = ''rules/.claude/skills/a'',
      ctargetPath = ''.claude/skills/a'', cmanifest = None, cconfig = [], cstatus = Available \<rparr>"

definition selectedAndRequired :: "mutation list" where
  "selectedAndRequired =
     [TrackInstall ''t0'' skillA (Some ''h''),
      TrackDependency ''t1'' ''skills'' ''a'' (Some ''h'') ''rules/.claude/skills/a'' [''x'']]"

definition deselectedThenRequired :: "mutation list" where
  "deselectedThenRequired =
     [TrackInstall ''t0'' skillA (Some ''h''),
      TrackUninstall ''skills'' ''a'',
      TrackDependency ''t1'' ''skills'' ''a'' (Some ''h'') ''rules/.claude/skills/a'' [''x'']]"

text \<open>An installed skill whose source has changed.\<close>

definition skillS :: component where
  "skillS = \<lparr> cname = ''s'', ccategory = ''skills'', csourcePath = ''rules/.claude/skills/s'',
      ctargetPath = ''.claude/skills/s'', cmanifest = None, cconfig = [], cstatus = Outdated \<rparr>"

definition driftedSkill :: world where
  "driftedSkill =
     \<lparr> files = [''rules/.claude/skills/s'' \<mapsto> Dir [(''SKILL.md'', File ''new'')],
                 ''.claude/skills/s'' \<mapsto> Dir [(''SKILL.md'', File ''old'')]],
       ledgerFile = None, settingsFile = None, configFile = None, clock = 0, writes = [] \<rparr>"

text \<open>A skill directory, and the same files listed in another order and without the manifest.\<close>

definition skillDir :: "(string \<times> node) list" where
  "skillDir =
     [(''SKILL.md'', File ''S''), (''manifest.json'', File ''{}''),
      (''sub'', Dir [(''c.txt'', File ''C'')]), (''b.md'', File ''B'')]"

definition skillDirOtherOrder :: "(string \<times> node) list" where
  "skillDirOtherOrder =
     [(''b.md'', File ''B''), (''sub'', Dir [(''c.txt'', File ''C'')]), (''SKILL.md'', File ''S'')]"

text \<open>
  Two runs of the tool. The rules hold the skill \<open>app\<close>, whose manifest requires the skill
  \<open>lib\<close>, and the hook \<open>notify\<close>; the project is empty. In both runs the user selects \<open>app\<close> and
  \<open>notify\<close> and answers every question with its default. In the example MD5 is the identity,
  \<^verbatim>\<open>JSON.stringify\<close> gives every configuration the same text, every environment variable is
  set and the clock counts.
\<close>

definition skillApp :: component where
  "skillApp = \<lparr> cname = ''app'', ccategory = ''skills'', csourcePath = ''rules/.claude/skills/app'',
      ctargetPath = ''.claude/skills/app'',
      cmanifest = Some \<lparr> m_mcpServers = None, m_agent = None, m_skills = Some [''lib''] \<rparr>,
      cconfig = [], cstatus = Available \<rparr>"

definition skillLib :: component where
  "skillLib = \<lparr> cname = ''lib'', ccategory = ''skills'', csourcePath = ''rules/.claude/skills/lib'',
      ctargetPath = ''.claude/skills/lib'', cmanifest = None, cconfig = [], cstatus = Available \<rparr>"

definition hookNotify :: component where
  "hookNotify = \<lparr> cname = ''notify'', ccategory = ''hooks'',
      csourcePath = ''rules/.claude/hooks/notify.json'', ctargetPath = ''.claude/settings.json'',
      cmanifest = None, cconfig = [(''Stop'', JObj [(''command'', JStr ''say done'')])],
      cstatus = Available \<rparr>"

definition freshProject :: world where
  "freshProject =
     \<lparr> files = [''rules/.claude/skills/app'' \<mapsto>
                   Dir [(''SKILL.md'', File ''Build the app with lib.''),
                        (''manifest.json'', File ''{ \"skills\": [\"lib\"] }'')],
                 ''rules/.claude/skills/lib'' \<mapsto> Dir [(''SKILL.md'', File ''Helpers.'')]],
       ledgerFile = None, settingsFile = None, configFile = None, clock = 0, writes = [] \<rparr>"

definition sameText :: "json \<Rightarrow> string" where
  "sameText content = ''{}''"

definition allSet :: "component \<Rightarrow> bool" where
  "allSet c = True"

fun defaultAnswer :: "prompt \<Rightarrow> bool" where
  "defaultAnswer (InstallDependencies envIssues) = (\<not> envIssues)"
| "defaultAnswer (InstallHookAnyway hookName) = False"
| "defaultAnswer (RemoveMcpServer n) = True"
| "defaultAnswer (RemoveAgent n) = True"
| "defaultAnswer (RemoveSkill n) = True"

text \<open>A run of the tool on a project, for what the user chooses, and the two runs.\<close>

definition runWith :: "(string \<times> string) list \<Rightarrow> world \<Rightarrow> (results \<times> world) option" where
  "runWith chosen w = run id caseFolded sameText show_nat allSet defaultAnswer 5
                        chosen [skillApp, skillLib] [] [hookNotify] [] w"

definition selection :: "(string \<times> string) list" where
  "selection = [(''skills'', ''app''), (''hooks'', ''notify'')]"

definition afterFirstRun :: world where
  "afterFirstRun = (case runWith selection freshProject of Some r \<Rightarrow> snd r | None \<Rightarrow> freshProject)"

definition afterSecondRun :: world where
  "afterSecondRun = (case runWith selection afterFirstRun of Some r \<Rightarrow> snd r | None \<Rightarrow> afterFirstRun)"


section \<open>Properties of the ledger\<close>

subsection \<open>Sets and object spread\<close>



lemma distinct_foldl_set_add: "distinct s \<Longrightarrow> distinct (foldl set_add s xs)"
  by (induction xs arbitrary: s) (auto simp: set_add_def)

lemma distinct_new_Set: "distinct (new_Set xs)"
  by (simp add: new_Set_def distinct_foldl_set_add)

lemma map_of_spread:
  "map_of (spread a b) k = (case map_of (rev b) k of None \<Rightarrow> map_of a k | Some v \<Rightarrow> Some v)"
proof (induction b arbitrary: a)
  case Nil
  then show ?case by (simp add: spread_def)
next
  case (Cons x b)
  have "spread a (x # b) = spread (AList.update (fst x) (snd x) a) b"
    by (simp add: spread_def)
  then show ?case
    using Cons.IH [of "AList.update (fst x) (snd x) a"]
    by (cases x) (auto simp: update_conv' map_add_def split: option.splits)
qed

lemma distinct_spread: "distinct (map fst a) \<Longrightarrow> distinct (map fst (spread a b))"
  by (induction b arbitrary: a) (simp_all add: spread_def distinct_update)

lemma map_of_rev_distinct:
  assumes "distinct (map fst xs)"
  shows "map_of (rev xs) = map_of xs"
proof -
  have "map fst (rev xs) = rev (map fst xs)"
    by (simp add: rev_map)
  then have "distinct (map fst (rev xs))"
    using assms by simp
  then show ?thesis
    using assms by (simp add: map_of_inject_set)
qed

lemma map_of_spread_distinct:
  "distinct (map fst b) \<Longrightarrow> map_of (spread a b) k = overlay (map_of a k) (map_of b k)"
  by (simp add: map_of_spread overlay_def map_of_rev_distinct)

subsection \<open>Reading back what a mutation wrote\<close>

lemma distinct_components_readLedger: "distinct (map fst (components (readLedger f)))"
  by (cases f) (simp_all add: readLedger_def createEmptyMetadata_def distinct_spread)

lemma distinct_resolvedDeps_readLedger: "distinct (map fst (resolvedDeps (readLedger f)))"
  by (cases f) (simp_all add: readLedger_def createEmptyMetadata_def distinct_spread)

lemma map_of_spread_covering:
  assumes "distinct (map fst b)" and "\<And>k. map_of a k \<noteq> None \<Longrightarrow> map_of b k \<noteq> None"
  shows "map_of (spread a b) k = map_of b k"
proof (cases "map_of b k")
  case None
  then have "map_of a k = None"
    using assms(2) [of k] by blast
  with None show ?thesis
    by (simp add: map_of_spread_distinct [OF assms(1)] overlay_def)
next
  case (Some v)
  then show ?thesis
    by (simp add: map_of_spread_distinct [OF assms(1)] overlay_def)
qed

lemma covers_components: 
  "map_of (components createEmptyMetadata) k \<noteq> None \<Longrightarrow> map_of (components (readLedger f)) k \<noteq> None"
  by (cases f) (auto simp: readLedger_def createEmptyMetadata_def map_of_spread split: option.splits if_splits)

lemma covers_resolvedDeps: 
  "map_of (resolvedDeps createEmptyMetadata) k \<noteq> None \<Longrightarrow> map_of (resolvedDeps (readLedger f)) k \<noteq> None"
  by (cases f) (auto simp: readLedger_def createEmptyMetadata_def map_of_spread split: option.splits if_splits)

lemma reread_components:
  assumes "distinct (map fst (components l))"
    and "\<And>k. map_of (components createEmptyMetadata) k \<noteq> None \<Longrightarrow> map_of (components l) k \<noteq> None"
  shows "map_of (components (readLedger (Some l))) k = map_of (components l) k"
proof -
  have "map_of (spread (components createEmptyMetadata) (components l)) k = map_of (components l) k"
    by (rule map_of_spread_covering [OF assms(1)]) (rule assms(2))
  then show ?thesis
    by (simp add: readLedger_def)
qed

lemma reread_resolvedDeps:
  assumes "distinct (map fst (resolvedDeps l))"
    and "\<And>k. map_of (resolvedDeps createEmptyMetadata) k \<noteq> None \<Longrightarrow> map_of (resolvedDeps l) k \<noteq> None"
  shows "map_of (resolvedDeps (readLedger (Some l))) k = map_of (resolvedDeps l) k"
proof -
  have "map_of (spread (resolvedDeps createEmptyMetadata) (resolvedDeps l)) k = map_of (resolvedDeps l) k"
    by (rule map_of_spread_covering [OF assms(1)]) (rule assms(2))
  then show ?thesis
    by (simp add: readLedger_def)
qed

lemma readLedger_idem_components:
  "map_of (components (readLedger (Some (readLedger f)))) k = map_of (components (readLedger f)) k"
  by (rule reread_components) (simp_all add: distinct_components_readLedger covers_components)

lemma readLedger_idem_resolvedDeps:
  "map_of (resolvedDeps (readLedger (Some (readLedger f)))) k = map_of (resolvedDeps (readLedger f)) k"
  by (rule reread_resolvedDeps) (simp_all add: distinct_resolvedDeps_readLedger covers_resolvedDeps)

lemma trackedComponent_trackInstall:
  "trackedComponent (trackInstall now c h f) cat n =
     (if cat = ccategory c \<and> n = cname c
      then Some \<lparr> hash = h, installedAt = now, sourcePath = csourcePath c \<rparr>
      else trackedComponent f cat n)"
proof -
  let ?m = "readLedger f"
  let ?e = "\<lparr> hash = h, installedAt = now, sourcePath = csourcePath c \<rparr>"
  let ?cs = "AList.update (ccategory c) (AList.update (cname c) ?e (category_map (components ?m) (ccategory c))) (components ?m)"
  have d: "distinct (map fst ?cs)"
    by (simp add: distinct_update distinct_components_readLedger)
  have cov: "\<And>k. map_of (components createEmptyMetadata) k \<noteq> None \<Longrightarrow> map_of ?cs k \<noteq> None"
    using covers_components [of _ f] by (simp add: update_conv')
  have "map_of (components (readLedger (trackInstall now c h f))) cat = map_of ?cs cat"
    unfolding trackInstall_def writeMetadata_def Let_def
    by (rule trans [OF reread_components]) (use d cov in simp_all)
  then show ?thesis
    by (auto simp: trackedComponent_def lookup2_def update_conv' category_map_def split: option.splits)
qed

lemma trackedDependency_trackInstall:
  "trackedDependency (trackInstall now c h f) cat n = trackedDependency f cat n"
proof -
  have "map_of (resolvedDeps (readLedger (trackInstall now c h f))) cat
        = map_of (resolvedDeps (readLedger f)) cat"
    unfolding trackInstall_def writeMetadata_def Let_def
    by (rule trans [OF reread_resolvedDeps])
       (simp_all add: distinct_resolvedDeps_readLedger covers_resolvedDeps)
  then show ?thesis
    by (simp add: trackedDependency_def lookup2_def)
qed

lemma trackedComponent_trackUninstall:
  "trackedComponent (trackUninstall c0 n0 f) cat n =
     (if cat = c0 \<and> n = n0 then None else trackedComponent f cat n)"
proof (cases "map_of (components (readLedger f)) c0")
  case None
  then have "trackUninstall c0 n0 f = Some (readLedger f)"
    by (simp add: trackUninstall_def writeMetadata_def)
  then show ?thesis
    using None by (auto simp: trackedComponent_def lookup2_def readLedger_idem_components)
next
  case (Some es)
  let ?m = "readLedger f"
  let ?cs = "AList.update c0 (AList.delete n0 es) (components ?m)"
  have d: "distinct (map fst ?cs)"
    by (simp add: distinct_update distinct_components_readLedger)
  have cov: "\<And>k. map_of (components createEmptyMetadata) k \<noteq> None \<Longrightarrow> map_of ?cs k \<noteq> None"
    using covers_components [of _ f] by (simp add: update_conv')
  have "map_of (components (readLedger (trackUninstall c0 n0 f))) cat = map_of ?cs cat"
    unfolding trackUninstall_def writeMetadata_def Let_def Some
    by (simp, rule trans [OF reread_components]) (use d cov in simp_all)
  then show ?thesis
    using Some by (auto simp: trackedComponent_def lookup2_def update_conv' delete_conv')
qed

lemma trackedDependency_trackUninstall:
  "trackedDependency (trackUninstall c0 n0 f) cat n = trackedDependency f cat n"
proof -
  have "map_of (resolvedDeps (readLedger (trackUninstall c0 n0 f))) cat
        = map_of (resolvedDeps (readLedger f)) cat"
    unfolding trackUninstall_def writeMetadata_def Let_def
    by (cases "map_of (components (readLedger f)) c0")
       (simp_all add: readLedger_idem_resolvedDeps,
        rule trans [OF reread_resolvedDeps],
        simp_all add: distinct_resolvedDeps_readLedger covers_resolvedDeps)
  then show ?thesis
    by (simp add: trackedDependency_def lookup2_def)
qed

lemma trackedDependency_trackDependency:
  "trackedDependency (trackDependency now c0 n0 h src reqBy f) cat n =
     (if cat = c0 \<and> n = n0
      then Some \<lparr> hash = h,
                  installedAt = (case trackedDependency f c0 n0 of None \<Rightarrow> now | Some e \<Rightarrow> installedAt e),
                  sourcePath = src,
                  requiredBy = new_Set ((case trackedDependency f c0 n0 of None \<Rightarrow> [] | Some e \<Rightarrow> requiredBy e) @ reqBy) \<rparr>
      else trackedDependency f cat n)"
proof -
  let ?m = "readLedger f"
  let ?deps = "category_map (resolvedDeps ?m) c0"
  let ?e = "\<lparr> hash = h,
              installedAt = (case map_of ?deps n0 of None \<Rightarrow> now | Some e \<Rightarrow> installedAt e),
              sourcePath = src,
              requiredBy = new_Set ((case map_of ?deps n0 of None \<Rightarrow> [] | Some e \<Rightarrow> requiredBy e) @ reqBy) \<rparr>"
  let ?ds = "AList.update c0 (AList.update n0 ?e ?deps) (resolvedDeps ?m)"
  have ex: "map_of ?deps n0 = trackedDependency f c0 n0"
    by (simp add: trackedDependency_def lookup2_def category_map_def split: option.splits)
  have d: "distinct (map fst ?ds)"
    by (simp add: distinct_update distinct_resolvedDeps_readLedger)
  have cov: "\<And>k. map_of (resolvedDeps createEmptyMetadata) k \<noteq> None \<Longrightarrow> map_of ?ds k \<noteq> None"
    using covers_resolvedDeps [of _ f] by (simp add: update_conv')
  have "map_of (resolvedDeps (readLedger (trackDependency now c0 n0 h src reqBy f))) cat = map_of ?ds cat"
    unfolding trackDependency_def writeMetadata_def Let_def
    by (rule trans [OF reread_resolvedDeps]) (use d cov in simp_all)
  then show ?thesis
    unfolding ex [symmetric]
    by (auto simp: trackedDependency_def lookup2_def update_conv' category_map_def split: option.splits)
qed

lemma trackedComponent_trackDependency:
  "trackedComponent (trackDependency now c0 n0 h src reqBy f) cat n = trackedComponent f cat n"
proof -
  have "map_of (components (readLedger (trackDependency now c0 n0 h src reqBy f))) cat
        = map_of (components (readLedger f)) cat"
    unfolding trackDependency_def writeMetadata_def Let_def
    by (rule trans [OF reread_components])
       (simp_all add: distinct_components_readLedger covers_components)
  then show ?thesis
    by (simp add: trackedComponent_def lookup2_def)
qed

lemma trackedDependency_removeDependency:
  "trackedDependency (removeDependency c0 n0 f) cat n =
     (if cat = c0 \<and> n = n0 then None else trackedDependency f cat n)"
proof (cases "map_of (resolvedDeps (readLedger f)) c0")
  case None
  then have "removeDependency c0 n0 f = Some (readLedger f)"
    by (simp add: removeDependency_def writeMetadata_def)
  then show ?thesis
    using None by (auto simp: trackedDependency_def lookup2_def readLedger_idem_resolvedDeps)
next
  case (Some es)
  let ?m = "readLedger f"
  let ?ds = "AList.update c0 (AList.delete n0 es) (resolvedDeps ?m)"
  have d: "distinct (map fst ?ds)"
    by (simp add: distinct_update distinct_resolvedDeps_readLedger)
  have cov: "\<And>k. map_of (resolvedDeps createEmptyMetadata) k \<noteq> None \<Longrightarrow> map_of ?ds k \<noteq> None"
    using covers_resolvedDeps [of _ f] by (simp add: update_conv')
  have "map_of (resolvedDeps (readLedger (removeDependency c0 n0 f))) cat = map_of ?ds cat"
    unfolding removeDependency_def writeMetadata_def Let_def Some
    by (simp, rule trans [OF reread_resolvedDeps]) (use d cov in simp_all)
  then show ?thesis
    using Some by (auto simp: trackedDependency_def lookup2_def update_conv' delete_conv')
qed

lemma trackedComponent_removeDependency:
  "trackedComponent (removeDependency c0 n0 f) cat n = trackedComponent f cat n"
proof -
  have "map_of (components (readLedger (removeDependency c0 n0 f))) cat
        = map_of (components (readLedger f)) cat"
    unfolding removeDependency_def writeMetadata_def Let_def
    by (cases "map_of (resolvedDeps (readLedger f)) c0")
       (simp_all add: readLedger_idem_components,
        rule trans [OF reread_components],
        simp_all add: distinct_components_readLedger covers_components)
  then show ?thesis
    by (simp add: trackedComponent_def lookup2_def)
qed



subsection \<open>Repeated tracking of a dependency\<close>







lemma ledgerFile_removeFile [simp]: "ledgerFile (removeFile p w) = ledgerFile w"
  by (simp add: removeFile_def)

lemma ledgerFile_removeMcpServerW [simp]: "ledgerFile (removeMcpServerW n w) = ledgerFile w"
  by (simp add: removeMcpServerW_def)

lemma ledgerFile_removeDependencyW [simp]:
  "ledgerFile (removeDependencyW cat n w) = removeDependency cat n (ledgerFile w)"
  by (simp add: removeDependencyW_def)










subsection \<open>Direct selections and auto-resolved dependencies\<close>

lemma trackedComponent_None [simp]: "trackedComponent None cat n = None"
  by (auto simp: trackedComponent_def lookup2_def readLedger_def createEmptyMetadata_def split: option.splits)

lemma trackedDependency_None [simp]: "trackedDependency None cat n = None"
  by (auto simp: trackedDependency_def lookup2_def readLedger_def createEmptyMetadata_def split: option.splits)

lemma trackedComponent_mutate:
  "(trackedComponent (mutate f m) cat n \<noteq> None)
     = selectionStep cat n (trackedComponent f cat n \<noteq> None) m"
  by (cases m)
     (auto simp: trackedComponent_trackInstall trackedComponent_trackUninstall
        trackedComponent_trackDependency trackedComponent_removeDependency)

lemma trackedDependency_mutate:
  "(trackedDependency (mutate f m) cat n \<noteq> None)
     = dependencyStep cat n (trackedDependency f cat n \<noteq> None) m"
  by (cases m)
     (auto simp: trackedDependency_trackInstall trackedDependency_trackUninstall
        trackedDependency_trackDependency trackedDependency_removeDependency)

lemma trackedComponent_run:
  "(trackedComponent (foldl mutate f ms) cat n \<noteq> None)
     = foldl (selectionStep cat n) (trackedComponent f cat n \<noteq> None) ms"
proof (induction ms arbitrary: f)
  case Nil
  then show ?case by simp
next
  case (Cons m ms)
  show ?case
    using Cons.IH [of "mutate f m"] trackedComponent_mutate [of f m cat n] by simp
qed

lemma trackedDependency_run:
  "(trackedDependency (foldl mutate f ms) cat n \<noteq> None)
     = foldl (dependencyStep cat n) (trackedDependency f cat n \<noteq> None) ms"
proof (induction ms arbitrary: f)
  case Nil
  then show ?case by simp
next
  case (Cons m ms)
  show ?case
    using Cons.IH [of "mutate f m"] trackedDependency_mutate [of f m cat n] by simp
qed

text \<open>
  Claim C3, as amended. The mutations of the two maps do not look at each other. After a
  sequence of mutations from the empty ledger, a category and name is in both \<open>components\<close> and
  \<open>resolvedDeps\<close> exactly when the last \<open>trackInstall\<close> or \<open>trackUninstall\<close> of the pair is a
  \<open>trackInstall\<close> and the last \<open>trackDependency\<close> or \<open>removeDependency\<close> of the pair is a
  \<open>trackDependency\<close>. So no pair is in both maps as long as every pair that is tracked on one
  side has been taken off the other side before.
\<close>

theorem ledger_maps_disjoint_unless_tracked_both_ways:
  "(\<not> inBoth (foldl mutate None ms) cat n)
     = (\<not> currentlySelected ms cat n \<or> \<not> currentlyRequired ms cat n)"
  using trackedComponent_run [of None ms cat n] trackedDependency_run [of None ms cat n]
  by (simp add: inBoth_def currentlySelected_def currentlyRequired_def)

text \<open>
  Claim C3 as stated fails: after \<open>trackInstall\<close> of the skill \<open>a\<close> and \<open>trackDependency\<close> of
  the skill \<open>a\<close>, the ledger has \<open>a\<close> in both maps.
\<close>

theorem ledger_entry_in_both_maps:
  "inBoth (foldl mutate None
     [TrackInstall ''t0'' \<lparr> cname = ''a'', ccategory = ''skills'', csourcePath = ''rules/.claude/skills/a'',
         ctargetPath = ''.claude/skills/a'', cmanifest = None, cconfig = [], cstatus = Available \<rparr> (Some ''h''),
      TrackDependency ''t1'' ''skills'' ''a'' (Some ''h'') ''rules/.claude/skills/a'' [''x'']])
     ''skills'' ''a''"
  by code_simp

text \<open>
  The amended claim at the two sequences: the skill \<open>a\<close> is in both maps when it is selected
  and required, and in one map only when it was deselected before it became a dependency.
\<close>

theorem ledger_maps_disjoint_witness:
  "currentlySelected selectedAndRequired ''skills'' ''a''
   \<and> currentlyRequired selectedAndRequired ''skills'' ''a''
   \<and> inBoth (foldl mutate None selectedAndRequired) ''skills'' ''a''
   \<and> \<not> currentlySelected deselectedThenRequired ''skills'' ''a''
   \<and> currentlyRequired deselectedThenRequired ''skills'' ''a''
   \<and> \<not> inBoth (foldl mutate None deselectedThenRequired) ''skills'' ''a''
   \<and> trackedDependency (foldl mutate None deselectedThenRequired) ''skills'' ''a''
       = Some \<lparr> hash = Some ''h'', installedAt = ''t1'', sourcePath = ''rules/.claude/skills/a'',
                requiredBy = [''x''] \<rparr>"
proof -
  have s1: "currentlySelected selectedAndRequired ''skills'' ''a''"
    and r1: "currentlyRequired selectedAndRequired ''skills'' ''a''"
    and s2: "\<not> currentlySelected deselectedThenRequired ''skills'' ''a''"
    and r2: "currentlyRequired deselectedThenRequired ''skills'' ''a''"
    by (simp_all add: currentlySelected_def currentlyRequired_def selectedAndRequired_def
          deselectedThenRequired_def skillA_def)
  have t: "trackedDependency (foldl mutate None deselectedThenRequired) ''skills'' ''a''
       = Some \<lparr> hash = Some ''h'', installedAt = ''t1'', sourcePath = ''rules/.claude/skills/a'',
                requiredBy = [''x''] \<rparr>"
    by code_simp
  from ledger_maps_disjoint_unless_tracked_both_ways [of selectedAndRequired "''skills''" "''a''"] s1 r1
  have b1: "inBoth (foldl mutate None selectedAndRequired) ''skills'' ''a''"
    by simp
  from ledger_maps_disjoint_unless_tracked_both_ways [of deselectedThenRequired "''skills''" "''a''"] s2
  have b2: "\<not> inBoth (foldl mutate None deselectedThenRequired) ''skills'' ''a''"
    by simp
  from s1 r1 b1 s2 r2 b2 t show ?thesis
    by (intro conjI)
qed

subsection \<open>Reading the ledger file\<close>

lemma map_of_spread_not_None: "map_of a k \<noteq> None \<Longrightarrow> map_of (spread a b) k \<noteq> None"
  by (simp add: map_of_spread split: option.splits)

lemma hasKeys_spread:
  assumes "list_all (\<lambda>k. map_of d k \<noteq> None) ks"
  shows "hasKeys ks (Some (JObj (spread d b)))"
proof -
  have "map_of (spread d b) k \<noteq> None" if "k \<in> set ks" for k
  proof (rule map_of_spread_not_None)
    show "map_of d k \<noteq> None"
      using assms that unfolding list_all_iff by blast
  qed
  then show ?thesis
    unfolding hasKeys_def list_all_iff by simp
qed

lemma structurallyComplete_empty: "structurallyComplete createEmptyMetadataJson"
  by (simp add: structurallyComplete_def createEmptyMetadataJson_def hasKeys_def
      emptyComponents_def emptyResolvedDeps_def)

lemma structurallyComplete_readMetadata: "structurallyComplete (readMetadata f)"
proof (cases f)
  case Missing
  then show ?thesis by (simp add: readMetadata_def structurallyComplete_empty)
next
  case Unparsable
  then show ?thesis by (simp add: readMetadata_def structurallyComplete_empty)
next
  case (Parsed data)
  show ?thesis
  proof (cases "getProp data ''components''")
    case None
    then show ?thesis using Parsed by (simp add: readMetadata_def structurallyComplete_empty)
  next
    case c: (Some c)
    show ?thesis
    proof (cases "getProp data ''resolvedDeps''")
      case None
      then show ?thesis using Parsed c by (simp add: readMetadata_def structurallyComplete_empty)
    next
      case r: (Some r)
      have v: "map_of (spread createEmptyMetadataJson (spread_json data)) ''version'' \<noteq> None"
        by (rule map_of_spread_not_None) (simp add: createEmptyMetadataJson_def)
      have i: "map_of (spread createEmptyMetadataJson (spread_json data)) ''installedBy'' \<noteq> None"
        by (rule map_of_spread_not_None) (simp add: createEmptyMetadataJson_def)
      have hc: "hasKeys [''skills'', ''agents'', ''hooks'']
                  (Some (JObj (spread emptyComponents (spread_json (orEmptyObject c)))))"
        by (rule hasKeys_spread) (simp add: emptyComponents_def)
      have hr: "hasKeys [''mcpServers'', ''agents'', ''skills'']
                  (Some (JObj (spread emptyResolvedDeps (spread_json (orEmptyObject r)))))"
        by (rule hasKeys_spread) (simp add: emptyResolvedDeps_def)
      show ?thesis
        using Parsed c r v i hc hr
        by (simp add: readMetadata_def structurallyComplete_def update_conv')
    qed
  qed
qed

text \<open>
  Claim C7. \<open>readMetadata\<close> returns a structurally complete ledger for every file: for a
  missing file and for one that cannot be parsed (empty or corrupt) it is the schema default,
  and no case raises an error. When the file parses to an object, every top-level key of the
  file is kept, a top-level key the file lacks has the default value, and the same holds one
  level down for the categories of \<open>components\<close> and of \<open>resolvedDeps\<close>: a missing sub-map is the
  default one, and a partial sub-map keeps its categories and gets the missing ones.
\<close>

theorem readMetadata_complete_and_backfilled:
  assumes "distinct (map fst kvs)"
  shows "readMetadata Missing = createEmptyMetadataJson
       \<and> readMetadata Unparsable = createEmptyMetadataJson
       \<and> structurallyComplete (readMetadata f)
       \<and> (\<forall>k. k \<noteq> ''components'' \<and> k \<noteq> ''resolvedDeps'' \<longrightarrow>
             map_of (readMetadata (Parsed (JObj kvs))) k
               = overlay (map_of createEmptyMetadataJson k) (map_of kvs k))
       \<and> (map_of kvs ''components'' = None \<longrightarrow>
             map_of (readMetadata (Parsed (JObj kvs))) ''components'' = Some (JObj emptyComponents))
       \<and> (map_of kvs ''resolvedDeps'' = None \<longrightarrow>
             map_of (readMetadata (Parsed (JObj kvs))) ''resolvedDeps'' = Some (JObj emptyResolvedDeps))
       \<and> (\<forall>cs. map_of kvs ''components'' = Some (JObj cs) \<and> distinct (map fst cs) \<longrightarrow>
             (\<exists>rs. map_of (readMetadata (Parsed (JObj kvs))) ''components'' = Some (JObj rs)
                 \<and> (\<forall>c. map_of rs c = overlay (map_of emptyComponents c) (map_of cs c))))
       \<and> (\<forall>ds. map_of kvs ''resolvedDeps'' = Some (JObj ds) \<and> distinct (map fst ds) \<longrightarrow>
             (\<exists>rs. map_of (readMetadata (Parsed (JObj kvs))) ''resolvedDeps'' = Some (JObj rs)
                 \<and> (\<forall>c. map_of rs c = overlay (map_of emptyResolvedDeps c) (map_of ds c))))"
proof -
  let ?r = "readMetadata (Parsed (JObj kvs))"
  have top: "map_of ?r k = overlay (map_of createEmptyMetadataJson k) (map_of kvs k)"
    if "k \<noteq> ''components'' \<and> k \<noteq> ''resolvedDeps''" for k
    using that assms by (simp add: readMetadata_def update_conv' map_of_spread_distinct)
  have comps: "map_of ?r ''components''
      = Some (JObj (spread emptyComponents (spread_json (orEmptyObject (map_of kvs ''components'')))))"
    by (simp add: readMetadata_def update_conv')
  have deps: "map_of ?r ''resolvedDeps''
      = Some (JObj (spread emptyResolvedDeps (spread_json (orEmptyObject (map_of kvs ''resolvedDeps'')))))"
    by (simp add: readMetadata_def update_conv')
  have c0: "map_of ?r ''components'' = Some (JObj emptyComponents)" if "map_of kvs ''components'' = None"
    using that by (simp add: comps spread_def)
  have d0: "map_of ?r ''resolvedDeps'' = Some (JObj emptyResolvedDeps)" if "map_of kvs ''resolvedDeps'' = None"
    using that by (simp add: deps spread_def)
  have c1: "\<exists>rs. map_of ?r ''components'' = Some (JObj rs)
                 \<and> (\<forall>c. map_of rs c = overlay (map_of emptyComponents c) (map_of cs c))"
    if "map_of kvs ''components'' = Some (JObj cs) \<and> distinct (map fst cs)" for cs
    using that by (simp add: comps map_of_spread_distinct)
  have d1: "\<exists>rs. map_of ?r ''resolvedDeps'' = Some (JObj rs)
                 \<and> (\<forall>c. map_of rs c = overlay (map_of emptyResolvedDeps c) (map_of ds c))"
    if "map_of kvs ''resolvedDeps'' = Some (JObj ds) \<and> distinct (map fst ds)" for ds
    using that by (simp add: deps map_of_spread_distinct)
  show ?thesis
    using top c0 d0 c1 d1 structurallyComplete_readMetadata [of f]
    by (simp add: readMetadata_def)
qed

text \<open>The theorem at a file that has another version, one skill and no \<open>resolvedDeps\<close>.\<close>

theorem readMetadata_complete_witness:
  "distinct (map fst [(''version'', JStr ''2.0.0''), (''components'', JObj [(''skills'', JObj [(''s'', JStr ''x'')])])])
   \<and> structurallyComplete (readMetadata (Parsed (JObj
         [(''version'', JStr ''2.0.0''), (''components'', JObj [(''skills'', JObj [(''s'', JStr ''x'')])])])))
   \<and> map_of (readMetadata (Parsed (JObj
         [(''version'', JStr ''2.0.0''), (''components'', JObj [(''skills'', JObj [(''s'', JStr ''x'')])])])))
        ''version'' = Some (JStr ''2.0.0'')
   \<and> map_of (readMetadata (Parsed (JObj
         [(''version'', JStr ''2.0.0''), (''components'', JObj [(''skills'', JObj [(''s'', JStr ''x'')])])])))
        ''installedBy'' = Some (JStr ''hands'')
   \<and> map_of (readMetadata (Parsed (JObj
         [(''version'', JStr ''2.0.0''), (''components'', JObj [(''skills'', JObj [(''s'', JStr ''x'')])])])))
        ''resolvedDeps'' = Some (JObj emptyResolvedDeps)
   \<and> (\<exists>rs. map_of (readMetadata (Parsed (JObj
         [(''version'', JStr ''2.0.0''), (''components'', JObj [(''skills'', JObj [(''s'', JStr ''x'')])])])))
        ''components'' = Some (JObj rs)
        \<and> map_of rs ''skills'' = Some (JObj [(''s'', JStr ''x'')]) \<and> map_of rs ''hooks'' = Some (JObj []))"
proof -
  let ?kvs = "[(''version'', JStr ''2.0.0''), (''components'', JObj [(''skills'', JObj [(''s'', JStr ''x'')])])]"
  let ?cs = "[(''skills'', JObj [(''s'', JStr ''x'')])]"
  have h: "distinct (map fst ?kvs)"
    by simp
  have c: "map_of ?kvs ''components'' = Some (JObj ?cs) \<and> distinct (map fst ?cs)"
    by simp
  have r: "map_of ?kvs ''resolvedDeps'' = None"
    by simp
  note t = readMetadata_complete_and_backfilled [OF h, of "Parsed (JObj ?kvs)"]
  note t3 = t [THEN conjunct2, THEN conjunct2]
  note t4 = t3 [THEN conjunct2]
  note t5 = t4 [THEN conjunct2]
  note t6 = t5 [THEN conjunct2]
  note t7 = t6 [THEN conjunct2]
  have a: "structurallyComplete (readMetadata (Parsed (JObj ?kvs)))"
    by (rule t3 [THEN conjunct1])
  have v: "map_of (readMetadata (Parsed (JObj ?kvs))) ''version'' = Some (JStr ''2.0.0'')"
    by (subst t4 [THEN conjunct1, THEN spec, THEN mp]) (simp_all add: overlay_def)
  have i: "map_of (readMetadata (Parsed (JObj ?kvs))) ''installedBy'' = Some (JStr ''hands'')"
    by (subst t4 [THEN conjunct1, THEN spec, THEN mp])
       (simp_all add: overlay_def createEmptyMetadataJson_def)
  have d: "map_of (readMetadata (Parsed (JObj ?kvs))) ''resolvedDeps'' = Some (JObj emptyResolvedDeps)"
    by (rule t6 [THEN conjunct1, THEN mp, OF r])
  have "\<exists>rs. map_of (readMetadata (Parsed (JObj ?kvs))) ''components'' = Some (JObj rs)
       \<and> (\<forall>c. map_of rs c = overlay (map_of emptyComponents c) (map_of ?cs c))"
    by (rule t7 [THEN conjunct1, THEN spec, THEN mp, OF c])
  then obtain rs where rs: "map_of (readMetadata (Parsed (JObj ?kvs))) ''components'' = Some (JObj rs)"
      and ov: "\<forall>c. map_of rs c = overlay (map_of emptyComponents c) (map_of ?cs c)"
    by (elim exE conjE) (rule that)
  have s1: "map_of rs ''skills'' = Some (JObj [(''s'', JStr ''x'')])"
    by (simp add: ov overlay_def emptyComponents_def)
  have s2: "map_of rs ''hooks'' = Some (JObj [])"
    by (simp add: ov overlay_def emptyComponents_def)
  have e: "\<exists>rs. map_of (readMetadata (Parsed (JObj ?kvs))) ''components'' = Some (JObj rs)
        \<and> map_of rs ''skills'' = Some (JObj [(''s'', JStr ''x'')]) \<and> map_of rs ''hooks'' = Some (JObj [])"
    by (intro exI [of _ rs] conjI rs s1 s2)
  show ?thesis
    by (intro conjI h a v i d e)
qed

subsection \<open>The ledger as a JSON document\<close>

text \<open>
  On the documents that the tracker writes, and on a missing or unreadable file,
  \<open>readLedger\<close> is \<open>readMetadata\<close>.
\<close>

lemma categories_json_update:
  "categories_json enc (AList.update k v al)
     = AList.update k (JObj (map (\<lambda>ne. (fst ne, enc (snd ne))) v)) (categories_json enc al)"
  by (induction al) (simp_all add: categories_json_def)

lemma categories_json_spread:
  "categories_json enc (spread a b) = spread (categories_json enc a) (categories_json enc b)"
proof (induction b arbitrary: a)
  case Nil
  then show ?case by (simp add: spread_def categories_json_def)
next
  case (Cons x b)
  have "spread a (x # b) = spread (AList.update (fst x) (snd x) a) b"
    by (simp add: spread_def)
  moreover have "spread (categories_json enc a) (categories_json enc (x # b))
      = spread (AList.update (fst x) (JObj (map (\<lambda>ne. (fst ne, enc (snd ne))) (snd x))) (categories_json enc a))
          (categories_json enc b)"
    by (simp add: spread_def categories_json_def)
  ultimately show ?case
    using Cons.IH [of "AList.update (fst x) (snd x) a"] by (simp add: categories_json_update)
qed

lemma readMetadata_of_ledger:
  "readMetadata (Parsed (JObj (ledger_json l))) = ledger_json (readLedger (Some l))"
proof -
  have c: "categories_json entry_json (components createEmptyMetadata) = emptyComponents"
    by (simp add: categories_json_def createEmptyMetadata_def emptyComponents_def)
  have r: "categories_json depEntry_json (resolvedDeps createEmptyMetadata) = emptyResolvedDeps"
    by (simp add: categories_json_def createEmptyMetadata_def emptyResolvedDeps_def)
  have top: "spread createEmptyMetadataJson (ledger_json l) = ledger_json l"
    by (simp add: spread_def createEmptyMetadataJson_def ledger_json_def)
  show ?thesis
    by (simp add: readMetadata_def top)
       (simp add: ledger_json_def readLedger_def categories_json_spread c r)
qed

lemma readMetadata_of_no_ledger:
  "readMetadata Missing = ledger_json (readLedger None)"
  "readMetadata Unparsable = ledger_json (readLedger None)"
  by (simp_all add: readMetadata_def readLedger_def ledger_json_def createEmptyMetadataJson_def
      createEmptyMetadata_def categories_json_def emptyComponents_def emptyResolvedDeps_def)

section \<open>Properties of the event-handler registry\<close>

subsection \<open>Merging a hook\<close>

lemma findIndex_Some:
  "findIndex P xs = Some i \<Longrightarrow> i < length xs \<and> P (xs ! i) \<and> (\<forall>j<i. \<not> P (xs ! j))"
proof (induction xs arbitrary: i)
  case Nil
  then show ?case by simp
next
  case (Cons x xs)
  show ?case
  proof (cases "P x")
    case True
    with Cons.prems show ?thesis by simp
  next
    case False
    with Cons.prems obtain k where k: "findIndex P xs = Some k" and i: "i = Suc k"
      by auto
    from Cons.IH [OF k] False i show ?thesis
      by (auto simp: less_Suc_eq_0_disj)
  qed
qed

lemma findIndex_None: "findIndex P xs = None \<longleftrightarrow> (\<forall>x\<in>set xs. \<not> P x)"
  by (induction xs) auto

lemma findIndex_first:
  "i < length xs \<Longrightarrow> P (xs ! i) \<Longrightarrow> (\<forall>j<i. \<not> P (xs ! j)) \<Longrightarrow> findIndex P xs = Some i"
proof (induction xs arbitrary: i)
  case Nil
  then show ?case by simp
next
  case (Cons x xs)
  show ?case
  proof (cases i)
    case 0
    with Cons.prems show ?thesis by simp
  next
    case (Suc k)
    with Cons.prems have "\<not> P x" by auto
    moreover have "findIndex P xs = Some k"
      using Cons.prems Suc by (intro Cons.IH) auto
    ultimately show ?thesis using Suc by simp
  qed
qed

lemma hasMarker_markedHandler: "hasMarker n (markedHandler n h)"
  by (simp add: hasMarker_def markedHandler_def update_conv')

lemma findIndex_update_same:
  assumes "findIndex P xs = Some i" and "P y"
  shows "findIndex P (xs[i := y]) = Some i"
proof (rule findIndex_first)
  from findIndex_Some [OF assms(1)] show "i < length (xs[i := y])" by simp
  from findIndex_Some [OF assms(1)] assms(2) show "P (xs[i := y] ! i)" by simp
  from findIndex_Some [OF assms(1)] show "\<forall>j<i. \<not> P (xs[i := y] ! j)" by simp
qed

lemma foldl_mergeHandler_present:
  "findIndex (hasMarker n) lst = Some i \<Longrightarrow>
   foldl (mergeHandler n) lst hs = (if hs = [] then lst else lst[i := markedHandler n (last hs)])"
proof (induction hs arbitrary: lst)
  case Nil
  then show ?case by simp
next
  case (Cons h hs)
  let ?lst1 = "lst[i := markedHandler n h]"
  have step: "mergeHandler n lst h = ?lst1"
    using Cons.prems by (simp add: mergeHandler_def)
  have "findIndex (hasMarker n) ?lst1 = Some i"
    using Cons.prems hasMarker_markedHandler by (rule findIndex_update_same)
  from Cons.IH [OF this] step show ?case
    by simp
qed

lemma foldl_mergeHandler_absent:
  assumes "findIndex (hasMarker n) lst = None"
  shows "foldl (mergeHandler n) lst hs = (if hs = [] then lst else lst @ [markedHandler n (last hs)])"
proof (cases hs)
  case Nil
  then show ?thesis by simp
next
  case (Cons h hs')
  let ?lst1 = "lst @ [markedHandler n h]"
  have step: "mergeHandler n lst h = ?lst1"
    using assms by (simp add: mergeHandler_def)
  have "findIndex (hasMarker n) ?lst1 = Some (length lst)"
    using assms by (intro findIndex_first) (auto simp: findIndex_None hasMarker_markedHandler nth_append)
  from foldl_mergeHandler_present [OF this, of hs'] step Cons show ?thesis
    by simp
qed

lemma eventList_update:
  "eventList (AList.update k v hooks) e = (if e = k then v else eventList hooks e)"
  by (simp add: eventList_def update_conv')

lemma eventList_foldl_mergeEvent:
  "distinct (map fst cfg) \<Longrightarrow>
   eventList (foldl (mergeEvent n) hooks cfg) e =
     (case map_of cfg e of
        None \<Rightarrow> eventList hooks e
      | Some hv \<Rightarrow> foldl (mergeHandler n) (eventList hooks e) (handlerArray hv))"
proof (induction cfg arbitrary: hooks)
  case Nil
  then show ?case by simp
next
  case (Cons ev cfg)
  obtain k hv where ev: "ev = (k, hv)" by (cases ev)
  from Cons.prems ev have d: "distinct (map fst cfg)" and nk: "map_of cfg k = None"
    by (auto simp: map_of_eq_None_iff)
  show ?case
    using Cons.IH [OF d, of "mergeEvent n hooks ev"] nk ev
    by (auto simp: mergeEvent_def eventList_update split: option.splits)
qed

lemma getHooks_mergeHook:
  "getHooks (mergeHook n cfg f) = foldl (mergeEvent n) (getHooks f) cfg"
  by (simp add: mergeHook_def getHooks_def readJsonFile_def)

text \<open>
  Claim C6. Let a hook's configuration give handlers for an event. If the event's list in the
  registry already has a handler with the hook's marker, merging the configuration puts the
  new marked handler at the index of the first such handler: the list keeps its length and
  every other element. If no handler of the list has the marker, the new marked handler is
  appended. (With several handlers for the event, the marked handler is the last of them.)
\<close>

theorem mergeHook_replaces_in_place_or_appends:
  assumes "distinct (map fst hookConfig)"
    and "map_of hookConfig eventType = Some handlers"
    and "handlerArray handlers \<noteq> []"
  shows "(case findIndex (hasMarker hookName) (eventList (getHooks f) eventType) of
            Some i \<Rightarrow>
              eventList (getHooks (mergeHook hookName hookConfig f)) eventType
                = (eventList (getHooks f) eventType)
                    [i := markedHandler hookName (last (handlerArray handlers))]
              \<and> length (eventList (getHooks (mergeHook hookName hookConfig f)) eventType)
                  = length (eventList (getHooks f) eventType)
              \<and> i < length (eventList (getHooks f) eventType)
              \<and> hasMarker hookName (eventList (getHooks f) eventType ! i)
          | None \<Rightarrow>
              eventList (getHooks (mergeHook hookName hookConfig f)) eventType
                = eventList (getHooks f) eventType
                    @ [markedHandler hookName (last (handlerArray handlers))])
         \<and> hasMarker hookName (markedHandler hookName (last (handlerArray handlers)))"
proof -
  let ?lst = "eventList (getHooks f) eventType"
  have e: "eventList (getHooks (mergeHook hookName hookConfig f)) eventType
             = foldl (mergeHandler hookName) ?lst (handlerArray handlers)"
    using assms(1,2) by (simp add: getHooks_mergeHook eventList_foldl_mergeEvent)
  show ?thesis
  proof (cases "findIndex (hasMarker hookName) ?lst")
    case None
    then show ?thesis
      using e assms(3) foldl_mergeHandler_absent [OF None, of "handlerArray handlers"]
      by (simp add: hasMarker_markedHandler)
  next
    case (Some i)
    then show ?thesis
      using e assms(3) foldl_mergeHandler_present [OF Some, of "handlerArray handlers"]
        findIndex_Some [OF Some]
      by (simp add: hasMarker_markedHandler)
  qed
qed

text \<open>
  The theorem where hook \<open>H\<close>, installed with command \<open>a\<close> between two handlers of the user,
  is merged again with command \<open>b\<close>.
\<close>

theorem mergeHook_replaces_in_place_witness:
  "distinct (map fst [(''Stop'', JObj [(''command'', JStr ''b'')])])
   \<and> map_of [(''Stop'', JObj [(''command'', JStr ''b'')])] ''Stop'' = Some (JObj [(''command'', JStr ''b'')])
   \<and> handlerArray (JObj [(''command'', JStr ''b'')]) \<noteq> []
   \<and> eventList (getHooks (mergeHook ''H'' [(''Stop'', JObj [(''command'', JStr ''b'')])]
        (Some \<lparr> s_hooks = Some [(''Stop'',
                   [[(''command'', JStr ''x'')],
                    [(''command'', JStr ''a''), (''_hands'', JStr ''H'')],
                    [(''command'', JStr ''y'')]])],
                s_other = [] \<rparr>))) ''Stop''
      = [[(''command'', JStr ''x'')],
         [(''command'', JStr ''b''), (''_hands'', JStr ''H'')],
         [(''command'', JStr ''y'')]]"
proof -
  let ?cfg = "[(''Stop'', JObj [(''command'', JStr ''b'')])]"
  let ?f = "Some \<lparr> s_hooks = Some [(''Stop'',
                   [[(''command'', JStr ''x'')],
                    [(''command'', JStr ''a''), (''_hands'', JStr ''H'')],
                    [(''command'', JStr ''y'')]])],
                s_other = [] \<rparr>"
  have h1: "distinct (map fst ?cfg)" by simp
  have h2: "map_of ?cfg ''Stop'' = Some (JObj [(''command'', JStr ''b'')])" by simp
  have h3: "handlerArray (JObj [(''command'', JStr ''b'')]) \<noteq> []" by simp
  have l: "eventList (getHooks ?f) ''Stop''
             = [[(''command'', JStr ''x'')],
                [(''command'', JStr ''a''), (''_hands'', JStr ''H'')],
                [(''command'', JStr ''y'')]]"
    by (simp add: eventList_def getHooks_def readJsonFile_def)
  have fi: "findIndex (hasMarker ''H'') (eventList (getHooks ?f) ''Stop'') = Some 1"
    unfolding l by (simp add: hasMarker_def)
  have m: "markedHandler ''H'' (last (handlerArray (JObj [(''command'', JStr ''b'')])))
             = [(''command'', JStr ''b''), (''_hands'', JStr ''H'')]"
    by (simp add: markedHandler_def)
  from mergeHook_replaces_in_place_or_appends [OF h1 h2 h3, of "''H''" ?f]
  have "eventList (getHooks (mergeHook ''H'' ?cfg ?f)) ''Stop''
          = (eventList (getHooks ?f) ''Stop'')
              [1 := markedHandler ''H'' (last (handlerArray (JObj [(''command'', JStr ''b'')])))]"
    unfolding fi by simp
  then have "eventList (getHooks (mergeHook ''H'' ?cfg ?f)) ''Stop''
          = [[(''command'', JStr ''x'')],
             [(''command'', JStr ''b''), (''_hands'', JStr ''H'')],
             [(''command'', JStr ''y'')]]"
    unfolding l m by simp
  with h1 h2 h3 show ?thesis
    by (intro conjI)
qed

subsection \<open>One marked handler for each hook and event\<close>

lemma ownerMarkers_Nil [simp]: "ownerMarkers [] = []"
  by (simp add: ownerMarkers_def map_filter_simps)

lemma ownerMarkers_Cons:
  "ownerMarkers (h # lst) =
     (case map_of h ''_hands'' of Some (JStr s) \<Rightarrow> s # ownerMarkers lst | _ \<Rightarrow> ownerMarkers lst)"
  by (simp add: ownerMarkers_def map_filter_simps split: option.splits json.splits)

lemma ownerMarkers_append: "ownerMarkers (xs @ ys) = ownerMarkers xs @ ownerMarkers ys"
  by (induction xs) (simp_all add: ownerMarkers_Cons split: option.splits json.splits)

lemma ownerMarkers_marked: "ownerMarkers [markedHandler n h] = [n]"
  using hasMarker_markedHandler [of n h] by (simp add: ownerMarkers_Cons hasMarker_def)

lemma in_ownerMarkers: "n \<in> set (ownerMarkers lst) \<longleftrightarrow> (\<exists>h\<in>set lst. hasMarker n h)"
  by (induction lst) (auto simp: ownerMarkers_Cons hasMarker_def split: option.splits json.splits)

lemma count_ownerMarkers:
  "length (filter (hasMarker n) lst) = count_list (ownerMarkers lst) n"
  by (induction lst) (auto simp: ownerMarkers_Cons hasMarker_def split: option.splits json.splits)

lemma count_list_distinct: "distinct xs \<Longrightarrow> count_list xs x \<le> 1"
  by (induction xs) (auto simp: count_list_0_iff)

lemma ownerMarkers_replace:
  "i < length lst \<Longrightarrow> hasMarker n (lst ! i) \<Longrightarrow>
   ownerMarkers (lst[i := markedHandler n h]) = ownerMarkers lst"
proof (induction lst arbitrary: i)
  case Nil
  then show ?case by simp
next
  case (Cons x lst)
  show ?case
  proof (cases i)
    case 0
    with Cons.prems hasMarker_markedHandler [of n h] show ?thesis
      by (simp add: ownerMarkers_Cons hasMarker_def)
  next
    case (Suc k)
    with Cons show ?thesis
      by (simp add: ownerMarkers_Cons split: option.splits json.splits)
  qed
qed

lemma distinct_ownerMarkers_filter:
  "distinct (ownerMarkers lst) \<Longrightarrow> distinct (ownerMarkers (filter P lst))"
proof (induction lst)
  case Nil
  then show ?case by simp
next
  case (Cons x lst)
  have sub: "set (ownerMarkers (filter P lst)) \<subseteq> set (ownerMarkers lst)"
    by (auto simp: in_ownerMarkers)
  from Cons sub show ?case
    by (auto simp: ownerMarkers_Cons split: option.splits json.splits)
qed

lemma distinct_ownerMarkers_mergeHandler:
  assumes "distinct (ownerMarkers lst)"
  shows "distinct (ownerMarkers (mergeHandler n lst h))"
proof (cases "findIndex (hasMarker n) lst")
  case None
  then have "n \<notin> set (ownerMarkers lst)"
    by (simp add: in_ownerMarkers findIndex_None)
  with assms None show ?thesis
    by (simp add: mergeHandler_def ownerMarkers_append ownerMarkers_marked)
next
  case (Some i)
  with assms findIndex_Some [OF Some] show ?thesis
    by (simp add: mergeHandler_def ownerMarkers_replace)
qed

lemma distinct_ownerMarkers_foldl:
  "distinct (ownerMarkers lst) \<Longrightarrow> distinct (ownerMarkers (foldl (mergeHandler n) lst hs))"
  by (induction hs arbitrary: lst) (simp_all add: distinct_ownerMarkers_mergeHandler)

lemma uniqueIn_eventList: "uniqueIn hooks \<Longrightarrow> distinct (ownerMarkers (eventList hooks e))"
  by (auto simp: uniqueIn_def eventList_def list_all_iff split: option.splits dest!: map_of_SomeD)

lemma set_update_subset: "set (AList.update k v al) \<subseteq> insert (k, v) (set al)"
  by (induction al) auto

lemma uniqueIn_update:
  "uniqueIn hooks \<Longrightarrow> distinct (ownerMarkers lst) \<Longrightarrow> uniqueIn (AList.update e lst hooks)"
  using set_update_subset [of e lst hooks] by (auto simp: uniqueIn_def list_all_iff)

lemma uniqueIn_delete: "uniqueIn hooks \<Longrightarrow> uniqueIn (AList.delete e hooks)"
  by (auto simp: uniqueIn_def list_all_iff AList.delete_eq)

lemma uniqueIn_mergeEvent: "uniqueIn hooks \<Longrightarrow> uniqueIn (mergeEvent n hooks ev)"
  by (simp add: mergeEvent_def uniqueIn_update distinct_ownerMarkers_foldl uniqueIn_eventList)

lemma uniqueIn_foldl_mergeEvent: "uniqueIn hooks \<Longrightarrow> uniqueIn (foldl (mergeEvent n) hooks cfg)"
  by (induction cfg arbitrary: hooks) (simp_all add: uniqueIn_mergeEvent)

lemma uniqueIn_removeFromEvent: "uniqueIn hooks \<Longrightarrow> uniqueIn (removeFromEvent n hooks e)"
proof (cases "map_of hooks e")
  case None
  assume "uniqueIn hooks"
  with None show ?thesis by (simp add: removeFromEvent_def)
next
  case (Some lst)
  assume u: "uniqueIn hooks"
  with Some have "distinct (ownerMarkers lst)"
    using uniqueIn_eventList [OF u, of e] by (simp add: eventList_def)
  then have "distinct (ownerMarkers (filter (\<lambda>h. \<not> hasMarker n h) lst))"
    by (rule distinct_ownerMarkers_filter)
  with u Some show ?thesis
    by (simp add: removeFromEvent_def uniqueIn_update uniqueIn_delete)
qed

lemma uniqueIn_foldl_removeFromEvent:
  "uniqueIn hooks \<Longrightarrow> uniqueIn (foldl (removeFromEvent n) hooks es)"
  by (induction es arbitrary: hooks) (simp_all add: uniqueIn_removeFromEvent)

lemma uniqueMarkers_uniqueIn: "uniqueMarkers f = uniqueIn (getHooks f)"
  by (simp add: uniqueMarkers_def uniqueIn_def)

lemma uniqueMarkers_mergeHook: "uniqueMarkers f \<Longrightarrow> uniqueMarkers (mergeHook n cfg f)"
  by (simp add: uniqueMarkers_uniqueIn getHooks_mergeHook uniqueIn_foldl_mergeEvent)

lemma uniqueMarkers_removeHook: "uniqueMarkers f \<Longrightarrow> uniqueMarkers (removeHook n f)"
proof (cases "s_hooks (readJsonFile f)")
  case None
  assume "uniqueMarkers f"
  with None show ?thesis by (simp add: removeHook_def)
next
  case (Some hooks)
  assume "uniqueMarkers f"
  with Some have "uniqueIn hooks"
    by (simp add: uniqueMarkers_uniqueIn getHooks_def)
  then have "uniqueIn (foldl (removeFromEvent n) hooks (map fst hooks))"
    by (rule uniqueIn_foldl_removeFromEvent)
  with Some show ?thesis
    by (simp add: uniqueMarkers_uniqueIn removeHook_def getHooks_def readJsonFile_def)
qed

lemma uniqueMarkers_syncSelectedHook:
  "uniqueMarkers (settingsFile (snd st)) \<Longrightarrow>
   uniqueMarkers (settingsFile (snd (syncSelectedHook md5 stringify time tracked st hook)))"
  by (cases st)
     (simp add: syncSelectedHook_def Let_def trackInstallW_def mergeHookW_def uniqueMarkers_mergeHook)

lemma uniqueMarkers_removeUnselectedHook:
  "uniqueMarkers (settingsFile (snd st)) \<Longrightarrow>
   uniqueMarkers (settingsFile (snd (removeUnselectedHook sel st n)))"
  by (cases st)
     (simp add: removeUnselectedHook_def trackUninstallW_def removeHookW_def uniqueMarkers_removeHook)

lemma uniqueMarkers_foldl_selected:
  "uniqueMarkers (settingsFile (snd st)) \<Longrightarrow>
   uniqueMarkers (settingsFile (snd (foldl (syncSelectedHook md5 stringify time tracked) st hooks)))"
  by (induction hooks arbitrary: st) (simp_all add: uniqueMarkers_syncSelectedHook)

lemma uniqueMarkers_foldl_unselected:
  "uniqueMarkers (settingsFile (snd st)) \<Longrightarrow>
   uniqueMarkers (settingsFile (snd (foldl (removeUnselectedHook sel) st ns)))"
  by (induction ns arbitrary: st) (simp_all add: uniqueMarkers_removeUnselectedHook)

lemma uniqueMarkers_syncHooks:
  "uniqueMarkers (settingsFile w) \<Longrightarrow>
   uniqueMarkers (settingsFile (snd (syncHooks md5 stringify time sel tracked w)))"
  unfolding syncHooks_def
  by (intro uniqueMarkers_foldl_unselected uniqueMarkers_foldl_selected) simp

lemma markedCount_mergeHook:
  assumes "uniqueMarkers f" and "distinct (map fst cfg)"
    and "map_of cfg e = Some hv" and "handlerArray hv \<noteq> []"
  shows "markedCount n (mergeHook n cfg f) e = 1"
proof -
  let ?lst = "eventList (getHooks f) e"
  let ?new = "markedHandler n (last (handlerArray hv))"
  have "distinct (ownerMarkers ?lst)"
    using assms(1) by (simp add: uniqueIn_eventList uniqueMarkers_uniqueIn)
  then have le1: "length (filter (hasMarker n) ?lst) \<le> 1"
    unfolding count_ownerMarkers by (rule count_list_distinct)
  have e: "eventList (getHooks (mergeHook n cfg f)) e = foldl (mergeHandler n) ?lst (handlerArray hv)"
    using assms(2,3) by (simp add: getHooks_mergeHook eventList_foldl_mergeEvent)
  show ?thesis
  proof (cases "findIndex (hasMarker n) ?lst")
    case None
    then have "filter (hasMarker n) ?lst = []"
      by (simp add: findIndex_None)
    then show ?thesis
      using e assms(4) foldl_mergeHandler_absent [OF None, of "handlerArray hv"]
      by (simp add: markedCount_def hasMarker_markedHandler)
  next
    case (Some i)
    from findIndex_Some [OF Some] have i: "i < length ?lst" "hasMarker n (?lst ! i)"
      by simp_all
    have "ownerMarkers (?lst[i := ?new]) = ownerMarkers ?lst"
      using i by (rule ownerMarkers_replace)
    then have same: "length (filter (hasMarker n) (?lst[i := ?new])) = length (filter (hasMarker n) ?lst)"
      by (simp add: count_ownerMarkers)
    have "?lst ! i \<in> set (filter (hasMarker n) ?lst)"
      using i by simp
    then have "0 < length (filter (hasMarker n) ?lst)"
      by (rule length_pos_if_in_set)
    with le1 have "length (filter (hasMarker n) ?lst) = 1"
      by linarith
    with same show ?thesis
      using e assms(4) foldl_mergeHandler_present [OF Some, of "handlerArray hv"]
      by (simp add: markedCount_def)
  qed
qed

lemma uniqueMarkers_no_settings: "uniqueMarkers None"
  by (simp add: uniqueMarkers_def getHooks_def readJsonFile_def)

lemma markedCount_le_1: "uniqueMarkers f \<Longrightarrow> markedCount n f e \<le> 1"
proof -
  assume "uniqueMarkers f"
  then have "distinct (ownerMarkers (eventList (getHooks f) e))"
    by (simp add: uniqueIn_eventList uniqueMarkers_uniqueIn)
  then show ?thesis
    unfolding markedCount_def count_ownerMarkers by (rule count_list_distinct)
qed

text \<open>
  Claim C10. When no event list of the settings document has two handlers with the same
  owner marker (as in a project without a settings file), the same holds after \<open>mergeHook\<close>,
  after \<open>removeHook\<close> and after \<open>syncHooks\<close>: every event list has at most one handler with a
  given marker. Hence a configuration that gives an event a list of several handlers leaves
  one marked handler of the hook under that event, the last of the list, each handler having
  replaced the one before.
\<close>

theorem owner_marker_at_most_once_per_event:
  assumes "uniqueMarkers f" and "uniqueMarkers (settingsFile w)"
  shows "uniqueMarkers (mergeHook hookName hookConfig f)
       \<and> uniqueMarkers (removeHook hookName f)
       \<and> uniqueMarkers (settingsFile (snd (syncHooks md5 stringify time selectedHooks trackedHooks w)))
       \<and> markedCount n (mergeHook hookName hookConfig f) e \<le> 1
       \<and> markedCount n (removeHook hookName f) e \<le> 1
       \<and> markedCount n (settingsFile (snd (syncHooks md5 stringify time selectedHooks trackedHooks w))) e \<le> 1
       \<and> (\<forall>eventType handlers.
             distinct (map fst hookConfig) \<and> map_of hookConfig eventType = Some (JArr handlers)
             \<and> handlers \<noteq> []
             \<longrightarrow> markedCount hookName (mergeHook hookName hookConfig f) eventType = 1
                 \<and> (\<exists>i < length (eventList (getHooks (mergeHook hookName hookConfig f)) eventType).
                       eventList (getHooks (mergeHook hookName hookConfig f)) eventType ! i
                         = markedHandler hookName (last handlers)))"
proof -
  have last_one: "\<exists>i < length (eventList (getHooks (mergeHook hookName hookConfig f)) eventType).
         eventList (getHooks (mergeHook hookName hookConfig f)) eventType ! i
           = markedHandler hookName (last handlers)"
    if h: "distinct (map fst hookConfig)" "map_of hookConfig eventType = Some (JArr handlers)" "handlers \<noteq> []"
    for eventType handlers
  proof -
    let ?lst = "eventList (getHooks f) eventType"
    let ?new = "markedHandler hookName (last handlers)"
    have e: "eventList (getHooks (mergeHook hookName hookConfig f)) eventType
               = foldl (mergeHandler hookName) ?lst handlers"
      using h(1,2) by (simp add: getHooks_mergeHook eventList_foldl_mergeEvent)
    show ?thesis
    proof (cases "findIndex (hasMarker hookName) ?lst")
      case None
      from foldl_mergeHandler_absent [OF None, of handlers] h(3) e
      have "eventList (getHooks (mergeHook hookName hookConfig f)) eventType = ?lst @ [?new]"
        by simp
      then show ?thesis
        by (intro exI [of _ "length ?lst"]) simp
    next
      case (Some i)
      from foldl_mergeHandler_present [OF Some, of handlers] h(3) e
      have "eventList (getHooks (mergeHook hookName hookConfig f)) eventType = ?lst[i := ?new]"
        by simp
      with findIndex_Some [OF Some] show ?thesis
        by (intro exI [of _ i]) simp
    qed
  qed
  have u1: "uniqueMarkers (mergeHook hookName hookConfig f)"
    using assms(1) by (rule uniqueMarkers_mergeHook)
  have u2: "uniqueMarkers (removeHook hookName f)"
    using assms(1) by (rule uniqueMarkers_removeHook)
  have u3: "uniqueMarkers (settingsFile (snd (syncHooks md5 stringify time selectedHooks trackedHooks w)))"
    using assms(2) by (rule uniqueMarkers_syncHooks)
  show ?thesis
    using u1 u2 u3 markedCount_le_1 [OF u1] markedCount_le_1 [OF u2] markedCount_le_1 [OF u3]
      assms(1) last_one
    by (auto simp: markedCount_mergeHook)
qed

text \<open>The theorem for a hook whose configuration gives the event two handlers.\<close>

theorem owner_marker_at_most_once_witness:
  "uniqueMarkers (Some \<lparr> s_hooks = Some [(''Stop'',
                   [[(''command'', JStr ''x'')],
                    [(''command'', JStr ''a''), (''_hands'', JStr ''H'')]])],
                s_other = [] \<rparr>)
   \<and> uniqueMarkers (mergeHook ''H'' [(''Stop'', JArr [JStr ''b'', JStr ''c''])]
        (Some \<lparr> s_hooks = Some [(''Stop'',
                   [[(''command'', JStr ''x'')],
                    [(''command'', JStr ''a''), (''_hands'', JStr ''H'')]])],
                s_other = [] \<rparr>))
   \<and> markedCount ''H'' (mergeHook ''H'' [(''Stop'', JArr [JStr ''b'', JStr ''c''])]
        (Some \<lparr> s_hooks = Some [(''Stop'',
                   [[(''command'', JStr ''x'')],
                    [(''command'', JStr ''a''), (''_hands'', JStr ''H'')]])],
                s_other = [] \<rparr>)) ''Stop'' = 1"
proof -
  let ?cfg = "[(''Stop'', JArr [JStr ''b'', JStr ''c''])]"
  let ?f = "Some \<lparr> s_hooks = Some [(''Stop'',
                   [[(''command'', JStr ''x'')],
                    [(''command'', JStr ''a''), (''_hands'', JStr ''H'')]])],
                s_other = [] \<rparr>"
  let ?w = "\<lparr> files = (\<lambda>p. None), ledgerFile = None, settingsFile = ?f, configFile = None, clock = 0, writes = [] \<rparr>"
  have h1: "uniqueMarkers ?f"
    by (simp add: uniqueMarkers_def getHooks_def readJsonFile_def ownerMarkers_def map_filter_simps)
  have h2: "uniqueMarkers (settingsFile ?w)"
    using h1 by simp
  have c: "distinct (map fst ?cfg) \<and> map_of ?cfg ''Stop'' = Some (JArr [JStr ''b'', JStr ''c''])
           \<and> [JStr ''b'', JStr ''c''] \<noteq> []"
    by simp
  note t = owner_marker_at_most_once_per_event [OF h1 h2, of "''H''" ?cfg]
  have a: "uniqueMarkers (mergeHook ''H'' ?cfg ?f)"
    by (rule t [THEN conjunct1])
  have b: "markedCount ''H'' (mergeHook ''H'' ?cfg ?f) ''Stop'' = 1"
    by (rule t [THEN conjunct2, THEN conjunct2, THEN conjunct2, THEN conjunct2, THEN conjunct2,
          THEN conjunct2, THEN spec, THEN spec, THEN mp, OF c, THEN conjunct1])
  show ?thesis
    by (intro conjI h1 a b)
qed

section \<open>Properties of the dependency resolution\<close>

lemma resolveMcpServer_keeps [simp]:
  "errors (resolveMcpServer env n st s) = errors st"
  "resolved (resolveMcpServer env n st s) = resolved st"
  by (simp_all add: resolveMcpServer_def)

lemma foldl_resolveMcpServer_keeps [simp]:
  "errors (foldl (resolveMcpServer env n) st ss) = errors st"
  "resolved (foldl (resolveMcpServer env n) st ss) = resolved st"
  by (induction ss arbitrary: st) simp_all

lemma resolveAgent_keeps [simp]:
  "errors (resolveAgent env n a st) = errors st"
  "resolved (resolveAgent env n a st) = resolved st"
  by (simp_all add: resolveAgent_def split: option.splits)

lemma resolveSkill_no_error:
  "(resolveSkill fuel env skill chain st = Some st' \<longrightarrow> set chain \<subseteq> set (resolved st)
      \<longrightarrow> errors st' = errors st \<and> set (resolved st) \<subseteq> set (resolved st'))"
  "(resolveSkillDeps fuel env sn chain' deps st = Some st' \<longrightarrow> set chain' \<subseteq> set (resolved st)
      \<longrightarrow> errors st' = errors st \<and> set (resolved st) \<subseteq> set (resolved st'))"
proof (induction fuel env skill chain st and fuel env sn chain' deps st arbitrary: st' and st'
       rule: resolveSkill_resolveSkillDeps.induct)
  case (1 env skill chain st)
  then show ?case by simp
next
  case (2 fuel env skill chain st)
  show ?case
  proof (intro impI)
    assume r: "resolveSkill (Suc fuel) env skill chain st = Some st'"
      and c: "set chain \<subseteq> set (resolved st)"
    show "errors st' = errors st \<and> set (resolved st) \<subseteq> set (resolved st')"
    proof (cases "cname skill \<in> set (resolved st)")
      case True
      with r show ?thesis by simp
    next
      case False
      with c have nc: "cname skill \<notin> set chain" by blast
      show ?thesis
      proof (cases "cmanifest skill")
        case None
        with r False nc show ?thesis by (auto simp: set_add_def)
      next
        case (Some m)
        show ?thesis
        proof (cases "m_skills m")
          case None
          with r False nc Some show ?thesis by (auto simp: set_add_def)
        next
          case ds: (Some deps)
          let ?st3 = "resolveAgent env (cname skill) (m_agent m)
                       (foldl (resolveMcpServer env (cname skill))
                          (st\<lparr> resolved := set_add (resolved st) (cname skill) \<rparr>)
                          (case m_mcpServers m of None \<Rightarrow> [] | Some servers \<Rightarrow> servers))"
          from r False nc Some ds
          have d: "resolveSkillDeps fuel env (cname skill) (chain @ [cname skill]) deps ?st3 = Some st'"
            by simp
          have ch: "set (chain @ [cname skill]) \<subseteq> set (resolved ?st3)"
            using c by (auto simp: set_add_def)
          from "2.IH" [OF False nc Some ds, of st'] d ch
          have "errors st' = errors ?st3 \<and> set (resolved ?st3) \<subseteq> set (resolved st')"
            by blast
          then show ?thesis
            by (auto simp: set_add_def)
        qed
      qed
    qed
  qed
next
  case (3 fuel env skillName currentChain st)
  then show ?case by simp
next
  case (4 fuel env skillName currentChain depName deps st)
  show ?case
  proof (intro impI)
    assume r: "resolveSkillDeps fuel env skillName currentChain (depName # deps) st = Some st'"
      and c: "set currentChain \<subseteq> set (resolved st)"
    show "errors st' = errors st \<and> set (resolved st) \<subseteq> set (resolved st')"
    proof (cases "map_of (skillMap env) depName")
      case None
      let ?st1 = "st\<lparr> warnings := warnings st @
               [''Skill \"'' @ skillName @ ''\" requires skill \"'' @ depName
                @ ''\" which is not available''] \<rparr>"
      from r None have "resolveSkillDeps fuel env skillName currentChain deps ?st1 = Some st'"
        by simp
      with "4.IH"(1) [OF None, of st'] c show ?thesis
        by simp
    next
      case (Some dep)
      let ?st1 = "if depName \<notin> set (userSelectedSkillNames env)
                   then st\<lparr> requiredSkills := add_required (requiredSkills st) depName skillName \<rparr>
                   else st"
      from r Some obtain st1' where
          a: "resolveSkill fuel env dep currentChain ?st1 = Some st1'"
          and b: "resolveSkillDeps fuel env skillName currentChain deps st1' = Some st'"
        by (auto split: option.splits)
      have c1: "set currentChain \<subseteq> set (resolved ?st1)"
        using c by simp
      from "4.IH"(2) [OF Some, of st1'] a c1
      have e1: "errors st1' = errors ?st1 \<and> set (resolved ?st1) \<subseteq> set (resolved st1')"
        by blast
      then have c2: "set currentChain \<subseteq> set (resolved st1')"
        using c1 by blast
      from "4.IH"(3) [OF Some a, of st'] b c2
      have "errors st' = errors st1' \<and> set (resolved st1') \<subseteq> set (resolved st')"
        by blast
      with e1 show ?thesis
        by auto
    qed
  qed
qed

lemma resolveSelected_no_error:
  "resolveSelected fuel env skills st = Some st' \<Longrightarrow> errors st' = errors st"
proof (induction skills arbitrary: st)
  case Nil
  then show ?case by simp
next
  case (Cons s skills)
  from Cons.prems obtain st1 where a: "resolveSkill fuel env s [] st = Some st1"
      and b: "resolveSelected fuel env skills st1 = Some st'"
    by (auto split: option.splits)
  from resolveSkill_no_error(1) [of fuel env s "[]" st st1] a have "errors st1 = errors st"
    by simp
  with Cons.IH [OF b] show ?case by simp
qed

lemma resolveRequired_no_error:
  "resolveRequired k fuel env i st = Some st' \<Longrightarrow> errors st' = errors st"
proof (induction k arbitrary: i st)
  case 0
  then show ?case by (simp split: if_splits)
next
  case (Suc k)
  show ?case
  proof (cases "i < length (requiredSkills st)")
    case False
    with Suc.prems show ?thesis by simp
  next
    case True
    show ?thesis
    proof (cases "snd (requiredSkills st ! i)")
      case Nil
      with Suc.prems True have "resolveRequired k fuel env (Suc i) st = Some st'" by simp
      then show ?thesis by (rule Suc.IH)
    next
      case (Cons first others)
      show ?thesis
      proof (cases "map_of (skillMap env) first")
        case None
        with Suc.prems True Cons have "resolveRequired k fuel env (Suc i) st = Some st'" by simp
        then show ?thesis by (rule Suc.IH)
      next
        case (Some depSkill)
        with Suc.prems True Cons obtain st1 where a: "resolveSkill fuel env depSkill [] st = Some st1"
            and b: "resolveRequired k fuel env (Suc i) st1 = Some st'"
          by (auto split: option.splits)
        from resolveSkill_no_error(1) [of fuel env depSkill "[]" st st1] a have "errors st1 = errors st"
          by simp
        with Suc.IH [OF b] show ?thesis by simp
      qed
    qed
  qed
qed

text \<open>
  Claim C1 does not hold of the code. \<open>resolveSkill\<close> returns at once for a name in \<open>resolved\<close>,
  and every name of the chain is in \<open>resolved\<close> before the chain is passed on; so the test of
  the chain never succeeds and no circular-dependency error is ever recorded: whenever
  \<open>resolveDependencies\<close> returns, its list of errors is empty and \<open>syncComponents\<close> does not
  abort.
\<close>

theorem resolveDependencies_never_reports_a_cycle:
  assumes "resolveDependencies fuel selectedSkills allSkills selectedAgents allAgents pool = Some resolution"
  shows "r_errors resolution = [] \<and> \<not> abortsOnErrors resolution"
proof -
  from assms obtain env st1 st2 where
      a: "resolveSelected fuel env selectedSkills
            \<lparr> resolved = [], requiredMcpServers = [], requiredAgents = [],
              requiredSkills = [], errors = [], warnings = [] \<rparr> = Some st1"
      and b: "resolveRequired fuel fuel env 0 st1 = Some st2"
      and c: "r_errors resolution = errors st2"
    unfolding resolveDependencies_def Let_def
    by (auto split: option.splits)
  from resolveSelected_no_error [OF a] resolveRequired_no_error [OF b] c
  show ?thesis
    by (simp add: abortsOnErrors_def)
qed

text \<open>
  For the skills \<open>A\<close> and \<open>B\<close> that require each other, with \<open>A\<close> selected, the resolution
  returns (a depth of 3 is enough) without an error and with \<open>B\<close> to install.
\<close>

theorem resolveDependencies_cycle_witness:
  "resolveDependencies 3 [cyclicA] [cyclicA, cyclicB] [] [] []
     = Some \<lparr> r_mcpServers = [], r_agents = [], r_skills = [(Some cyclicB, [''A''])],
              r_errors = [], r_warnings = [] \<rparr>
   \<and> \<not> abortsOnErrors \<lparr> r_mcpServers = [], r_agents = [], r_skills = [(Some cyclicB, [''A''])],
              r_errors = [], r_warnings = [] \<rparr>"
proof -
  have h: "resolveDependencies 3 [cyclicA] [cyclicA, cyclicB] [] [] []
     = Some \<lparr> r_mcpServers = [], r_agents = [], r_skills = [(Some cyclicB, [''A''])],
              r_errors = [], r_warnings = [] \<rparr>"
    by code_simp
  from resolveDependencies_never_reports_a_cycle [OF h] h show ?thesis
    by simp
qed

section \<open>Properties of the orphan detection\<close>

text \<open>
  Claim C8 does not hold of the code. After the two runs the ledger lists the skill \<open>D2\<close> before
  the skill \<open>D1\<close>. The single pass of \<open>cleanupOrphans\<close> looks at \<open>D2\<close> before it has added \<open>D1\<close>,
  so it does not retain \<open>D2\<close>, and the endpoint \<open>M\<close> that only \<open>D2\<close> requires is flagged as an
  orphan, although \<open>D2\<close> is still required through \<open>X\<close> and \<open>D1\<close>.
\<close>

theorem cleanupOrphans_flags_dependency_of_retained_skill:
  "map fst (o_mcpServers (orphanCandidates [skillX] (foldl mutate None twoRuns))) = [''M'']
   \<and> map_option requiredBy (trackedDependency (foldl mutate None twoRuns) ''mcpServers'' ''M'') = Some [''D2'']
   \<and> ''D2'' \<in> retained [''X''] (getTrackedDependencies ''skills'' (foldl mutate None twoRuns))"
proof (intro conjI)
  show "map fst (o_mcpServers (orphanCandidates [skillX] (foldl mutate None twoRuns))) = [''M'']"
    by code_simp
  show "map_option requiredBy (trackedDependency (foldl mutate None twoRuns) ''mcpServers'' ''M'') = Some [''D2'']"
    by code_simp
  let ?d2 = "\<lparr> hash = Some ''h2'', installedAt = ''t2'', sourcePath = ''rules/.claude/skills/D2'',
               requiredBy = [''Y'', ''D1''] \<rparr>"
  let ?d1 = "\<lparr> hash = Some ''h1'', installedAt = ''t4'', sourcePath = ''rules/.claude/skills/D1'',
               requiredBy = [''X''] \<rparr>"
  have l: "getTrackedDependencies ''skills'' (foldl mutate None twoRuns) = [(''D2'', ?d2), (''D1'', ?d1)]"
    by code_simp
  have x: "''X'' \<in> retained [''X''] [(''D2'', ?d2), (''D1'', ?d1)]"
    by (rule retained.selected) simp
  have d1: "''D1'' \<in> retained [''X''] [(''D2'', ?d2), (''D1'', ?d1)]"
    by (rule retained.required [where info = ?d1 and r = "''X''"]) (simp_all add: x)
  have "''D2'' \<in> retained [''X''] [(''D2'', ?d2), (''D1'', ?d1)]"
    by (rule retained.required [where info = ?d2 and r = "''D1''"]) (simp_all add: d1)
  then show "''D2'' \<in> retained [''X''] (getTrackedDependencies ''skills'' (foldl mutate None twoRuns))"
    unfolding l .
qed

section \<open>Properties of the installation of files\<close>

lemma installFileComponent_backs_up_a_file:
  assumes "files w (csourcePath c) = Some (File new)" and "files w (ctargetPath c) = Some (File old)"
    and "md5 new \<noteq> md5 old" and "files w (backupPath (ctargetPath c)) = None"
    and "basename (csourcePath c) \<noteq> ''manifest.json''"
    and "backupPath (ctargetPath c) \<noteq> csourcePath c"
  shows "\<exists>w'. installFileComponent md5 c w = Some (True, w')
           \<and> files w' (backupPath (ctargetPath c)) = Some (File old)
           \<and> files w' (ctargetPath c) = Some (File new)
           \<and> writes w' = writes w @ [CopyTo (backupPath (ctargetPath c)), CopyTo (ctargetPath c)]"
  using assms
  by (auto simp: installFileComponent_def fs_copy_def computeFileHash_def backupPath_def Let_def)

lemma fs_copy_effect:
  "fs_copy flt src dest w = Some w' \<Longrightarrow>
     (w' = w \<or> (\<exists>d. w' = w\<lparr> files := (files w)(dest \<mapsto> d), writes := writes w @ [CopyTo dest] \<rparr>))"
  by (auto simp: fs_copy_def split: option.splits if_splits)

text \<open>
  Claim C9 does not hold of the code for skills. \<open>installFileComponent\<close> compares
  \<open>computeFileHash\<close> of the two paths, which is \<^verbatim>\<open>null\<close> for a directory on both sides. So when
  source and target are directories, whatever they hold, nothing is copied to the path with
  the suffix: the only write is the copy over the target.
\<close>

theorem installFileComponent_never_backs_up_a_directory:
  assumes "files w (csourcePath c) = Some (Dir srcEntries)"
    and "files w (ctargetPath c) = Some (Dir targetEntries)"
    and "installFileComponent md5 c w = Some (ok, w')"
  shows "files w' (backupPath (ctargetPath c)) = files w (backupPath (ctargetPath c))
       \<and> (writes w' = writes w \<or> writes w' = writes w @ [CopyTo (ctargetPath c)])"
proof -
  have same: "computeFileHash md5 (files w (csourcePath c)) = computeFileHash md5 (files w (ctargetPath c))"
    using assms(1,2) by (simp add: computeFileHash_def)
  from assms(1,3) same have c: "fs_copy True (csourcePath c) (ctargetPath c) w = Some w'"
    by (auto simp: installFileComponent_def Let_def split: option.splits if_splits)
  have ne: "backupPath (ctargetPath c) \<noteq> ctargetPath c"
    by (simp add: backupPath_def)
  from fs_copy_effect [OF c] ne show ?thesis
    by auto
qed

text \<open>
  An installed skill whose directory hash differs from the hash of the source is overwritten
  and there is no backup. (MD5 is the identity here, so that different contents have
  different hashes.)
\<close>

theorem installFileComponent_no_backup_witness:
  "computeDirectoryHash id caseFolded (files driftedSkill (csourcePath skillS))
       \<noteq> computeDirectoryHash id caseFolded (files driftedSkill (ctargetPath skillS))
   \<and> map_option fst (installFileComponent id skillS driftedSkill) = Some True
   \<and> map_option (\<lambda>r. files (snd r) (backupPath (ctargetPath skillS)))
        (installFileComponent id skillS driftedSkill) = Some None
   \<and> map_option (\<lambda>r. files (snd r) (ctargetPath skillS))
        (installFileComponent id skillS driftedSkill) = Some (Some (Dir [(''SKILL.md'', File ''new'')]))
   \<and> map_option (\<lambda>r. writes (snd r)) (installFileComponent id skillS driftedSkill)
       = Some [CopyTo ''.claude/skills/s'']"
proof -
  have s: "files driftedSkill (csourcePath skillS) = Some (Dir [(''SKILL.md'', File ''new'')])"
    by code_simp
  have t: "files driftedSkill (ctargetPath skillS) = Some (Dir [(''SKILL.md'', File ''old'')])"
    by code_simp
  have d: "computeDirectoryHash id caseFolded (files driftedSkill (csourcePath skillS))
       \<noteq> computeDirectoryHash id caseFolded (files driftedSkill (ctargetPath skillS))"
    by code_simp
  have ok: "map_option fst (installFileComponent id skillS driftedSkill) = Some True"
    by code_simp
  then obtain w' where r: "installFileComponent id skillS driftedSkill = Some (True, w')"
    by (cases "installFileComponent id skillS driftedSkill") auto
  have b0: "files driftedSkill (backupPath (ctargetPath skillS)) = None"
    by code_simp
  from installFileComponent_never_backs_up_a_directory [OF s t r] b0
  have b: "files w' (backupPath (ctargetPath skillS)) = None"
    by simp
  have tg: "map_option (\<lambda>r. files (snd r) (ctargetPath skillS))
        (installFileComponent id skillS driftedSkill) = Some (Some (Dir [(''SKILL.md'', File ''new'')]))"
    by code_simp
  have wr: "map_option (\<lambda>r. writes (snd r)) (installFileComponent id skillS driftedSkill)
       = Some [CopyTo ''.claude/skills/s'']"
    by code_simp
  show ?thesis
    using d ok b tg wr r by simp
qed

section \<open>Properties of the directory hash\<close>

subsection \<open>The files that are hashed\<close>

lemma scan_append: "scan rel (xs @ ys) = scan rel xs @ scan rel ys"
  by (induction rel xs rule: scan.induct) simp_all

lemma scan_Cons: "scan rel (e # es) = scan rel [e] @ scan rel es"
  using scan_append [of rel "[e]" es] by simp

lemma allFiles_prefix_aux:
  "allFiles (qs @ ps) es = map (\<lambda>pc. (qs @ fst pc, snd pc)) (allFiles ps es)"
  by (induction ps es arbitrary: qs rule: allFiles.induct) (simp_all flip: append_assoc)

lemma allFiles_prefix: "allFiles qs es = map (\<lambda>pc. (qs @ fst pc, snd pc)) (allFiles [] es)"
  using allFiles_prefix_aux [of qs "[]" es] by simp

lemma foldl_join_path_Cons: "foldl join_path rel (n # qs) = foldl join_path (join_path rel n) qs"
  by simp

lemma set_scan:
  "set (scan rel es) =
     (\<lambda>pc. (foldl join_path rel (fst pc), snd pc)) `
       {pc \<in> set (allFiles [] es). ''manifest.json'' \<notin> set (fst pc)}"
proof (induction rel es rule: scan.induct)
  case (1 relativePath)
  then show ?case by simp
next
  case (2 relativePath n content entries)
  have split: "{pc \<in> set (allFiles [] ((n, File content) # entries)). ''manifest.json'' \<notin> set (fst pc)}
      = (if n = ''manifest.json'' then {} else {([n], content)})
        \<union> {pc \<in> set (allFiles [] entries). ''manifest.json'' \<notin> set (fst pc)}"
    by auto
  show ?case
  proof (cases "n = ''manifest.json''")
    case True
    with 2 show ?thesis
      unfolding split by simp
  next
    case False
    with 2 show ?thesis
      unfolding split by (simp add: image_Un)
  qed
next
  case (3 relativePath n sub entries)
  have sub: "{pc \<in> set (allFiles [n] sub). ''manifest.json'' \<notin> set (fst pc)}
      = (if n = ''manifest.json'' then {}
         else (\<lambda>pc. (n # fst pc, snd pc)) ` {pc \<in> set (allFiles [] sub). ''manifest.json'' \<notin> set (fst pc)})"
    by (subst allFiles_prefix) auto
  have split: "{pc \<in> set (allFiles [] ((n, Dir sub) # entries)). ''manifest.json'' \<notin> set (fst pc)}
      = {pc \<in> set (allFiles [n] sub). ''manifest.json'' \<notin> set (fst pc)}
        \<union> {pc \<in> set (allFiles [] entries). ''manifest.json'' \<notin> set (fst pc)}"
    by auto
  show ?case
  proof (cases "n = ''manifest.json''")
    case True
    with 3 show ?thesis
      unfolding split sub by simp
  next
    case False
    with 3 show ?thesis
      unfolding split sub by (simp add: image_Un image_image)
  qed
qed

lemma set_scan_hashedFiles: "set (scan [] es) = hashedFiles es"
  by (simp add: set_scan hashedFiles_def pathString_def)

subsection \<open>Sorting by the comparator\<close>

lemma linearOn_total: "linearOn ps le \<Longrightarrow> a \<in> set ps \<Longrightarrow> b \<in> set ps \<Longrightarrow> le a b \<or> le b a"
  unfolding linearOn_def list_all_iff by blast

lemma linearOn_antisym:
  "linearOn ps le \<Longrightarrow> a \<in> set ps \<Longrightarrow> b \<in> set ps \<Longrightarrow> le a b \<Longrightarrow> le b a \<Longrightarrow> a = b"
  unfolding linearOn_def list_all_iff by blast

lemma linearOn_trans:
  "linearOn ps le \<Longrightarrow> a \<in> set ps \<Longrightarrow> b \<in> set ps \<Longrightarrow> c \<in> set ps \<Longrightarrow> le a b \<Longrightarrow> le b c \<Longrightarrow> le a c"
  unfolding linearOn_def list_all_iff by blast

lemma linearOn_cong: "set ps = set qs \<Longrightarrow> linearOn ps le = linearOn qs le"
  unfolding linearOn_def list_all_iff by simp

lemma mset_insort_by: "mset (insort_by le x ys) = add_mset x (mset ys)"
  by (induction ys) simp_all

lemma mset_sort_by: "mset (sort_by le xs) = mset xs"
  by (induction xs) (simp_all add: sort_by_def mset_insort_by)

lemma set_sort_by: "set (sort_by le xs) = set xs"
  using mset_sort_by [of le xs] by (metis set_mset_mset)

lemma sorted_insort_by:
  assumes "linearOn ps le" and "fst x \<in> set ps" and "fst ` set ys \<subseteq> set ps"
    and "sorted_wrt (\<lambda>a b. le (fst a) (fst b)) ys"
  shows "sorted_wrt (\<lambda>a b. le (fst a) (fst b)) (insort_by le x ys)"
  using assms(3,4)
proof (induction ys)
  case Nil
  then show ?case by simp
next
  case (Cons y ys)
  show ?case
  proof (cases "le (fst x) (fst y)")
    case True
    have "le (fst x) (fst z)" if "z \<in> set ys" for z
    proof -
      from Cons.prems that have "le (fst y) (fst z)" by simp
      with True show ?thesis
        using linearOn_trans [OF assms(1), of "fst x" "fst y" "fst z"] assms(2) Cons.prems(1) that
        by auto
    qed
    with True Cons.prems show ?thesis by simp
  next
    case False
    then have yx: "le (fst y) (fst x)"
      using linearOn_total [OF assms(1), of "fst x" "fst y"] assms(2) Cons.prems(1) by auto
    have "sorted_wrt (\<lambda>a b. le (fst a) (fst b)) (insort_by le x ys)"
      using Cons.prems by (intro Cons.IH) auto
    moreover have "\<forall>z\<in>set (insort_by le x ys). le (fst y) (fst z)"
      using yx Cons.prems(2) by (auto simp flip: set_mset_mset simp: mset_insort_by)
    ultimately show ?thesis
      using False by simp
  qed
qed

lemma sorted_sort_by:
  assumes "linearOn ps le" and "fst ` set xs \<subseteq> set ps"
  shows "sorted_wrt (\<lambda>a b. le (fst a) (fst b)) (sort_by le xs)"
  using assms(2)
proof (induction xs)
  case Nil
  then show ?case by (simp add: sort_by_def)
next
  case (Cons x xs)
  have s: "sort_by le (x # xs) = insort_by le x (sort_by le xs)"
    by (simp add: sort_by_def)
  show ?case
    unfolding s
    using Cons by (intro sorted_insort_by [OF assms(1)]) (auto simp: set_sort_by)
qed

lemma distinct_keys_sort_by: "distinct (map fst xs) \<Longrightarrow> distinct (map fst (sort_by le xs))"
proof -
  have "mset (map fst (sort_by le xs)) = mset (map fst xs)"
    by (simp add: mset_sort_by)
  then show "distinct (map fst xs) \<Longrightarrow> distinct (map fst (sort_by le xs))"
    by (metis mset_eq_imp_distinct_iff)
qed

lemma sorted_unique:
  assumes "linearOn ps le" and "fst ` set xs \<subseteq> set ps"
    and "sorted_wrt (\<lambda>a b. le (fst a) (fst b)) xs" and "sorted_wrt (\<lambda>a b. le (fst a) (fst b)) ys"
    and "distinct (map fst xs)" and "distinct ys" and "set xs = set ys"
  shows "xs = ys"
  using assms(2-)
proof (induction xs arbitrary: ys)
  case Nil
  then show ?case by simp
next
  case (Cons x xs)
  from Cons.prems(6) obtain y ys' where ys: "ys = y # ys'"
    by (cases ys) auto
  have inj: "inj_on fst (set (x # xs))"
    using Cons.prems(4) by (simp only: distinct_map)
  have xy: "x = y"
  proof (rule ccontr)
    assume ne: "x \<noteq> y"
    with Cons.prems(6) ys have "x \<in> set ys'" and "y \<in> set xs"
      by auto
    with Cons.prems(2,3) ys have "le (fst x) (fst y)" and "le (fst y) (fst x)"
      by auto
    moreover have "fst x \<in> set ps" and "fst y \<in> set ps"
      using Cons.prems(1) \<open>y \<in> set xs\<close> by auto
    ultimately have "fst x = fst y"
      using linearOn_antisym [OF assms(1)] by blast
    with inj \<open>y \<in> set xs\<close> have "x = y"
      by (auto dest: inj_onD)
    with ne show False by simp
  qed
  have "x \<notin> set xs"
    using Cons.prems(4) by (auto simp: image_iff)
  moreover have "y \<notin> set ys'"
    using Cons.prems(5) ys by simp
  ultimately have "set xs = set ys'"
    using Cons.prems(6) ys xy by auto
  then have "xs = ys'"
    using Cons.prems ys by (intro Cons.IH) auto
  with xy ys show ?case by simp
qed

lemma sort_by_unique:
  assumes "linearOn (map fst xs) le" and "distinct (map fst xs)"
    and "sorted_wrt (\<lambda>a b. le (fst a) (fst b)) ys" and "distinct ys" and "set ys = set xs"
  shows "sort_by le xs = ys"
proof (rule sorted_unique [OF assms(1)])
  show "fst ` set (sort_by le xs) \<subseteq> set (map fst xs)"
    by (simp add: set_sort_by)
  show "sorted_wrt (\<lambda>a b. le (fst a) (fst b)) (sort_by le xs)"
    by (rule sorted_sort_by [OF assms(1)]) simp
  show "sorted_wrt (\<lambda>a b. le (fst a) (fst b)) ys" by fact
  show "distinct (map fst (sort_by le xs))"
    using assms(2) by (rule distinct_keys_sort_by)
  show "distinct ys" by fact
  show "set (sort_by le xs) = set ys"
    using assms(5) by (simp add: set_sort_by)
qed

subsection \<open>Order of the directory entries, and the manifest\<close>

lemma scan_around:
  "scan r (xs @ e # ys) = scan r xs @ scan r [e] @ scan r ys"
proof -
  have "xs @ e # ys = xs @ [e] @ ys" by simp
  then show ?thesis by (simp only: scan_append)
qed

lemma scan_around2:
  "scan r (xs @ a # b # ys) = scan r xs @ scan r [a] @ scan r [b] @ scan r ys"
proof -
  have "xs @ a # b # ys = xs @ [a] @ [b] @ ys" by simp
  then show ?thesis by (simp only: scan_append)
qed

lemma scan_Dir_entry:
  "scan rel [(n, Dir sub)] = (if n = ''manifest.json'' then [] else scan (join_path rel n) sub)"
  by simp

lemma reordered_mset:
  "reordered t t' \<Longrightarrow> mset (scan rel [(n, t)]) = mset (scan rel [(n, t')])"
proof (induction arbitrary: rel n rule: reordered.induct)
  case (same t)
  then show ?case by simp
next
  case (swap xs a b ys)
  have "mset (scan r (xs @ a # b # ys)) = mset (scan r (xs @ b # a # ys))" for r
    by (simp only: scan_around2 mset_append ac_simps)
  then show ?case
    unfolding scan_Dir_entry by simp
next
  case (inside t t' xs m ys)
  have "mset (scan r (xs @ (m, t) # ys)) = mset (scan r (xs @ (m, t') # ys))" for r
    using inside.IH [of r m] by (simp only: scan_around mset_append)
  then show ?case
    unfolding scan_Dir_entry by simp
next
  case (step t t' t'')
  then show ?case by simp
qed

lemma reordered_Dir: "reordered t t' \<Longrightarrow> \<forall>es. t = Dir es \<longrightarrow> (\<exists>es'. t' = Dir es')"
  by (induction rule: reordered.induct) auto

lemma reordered_scan:
  assumes "reordered (Dir es) (Dir es')"
  shows "mset (scan [] es') = mset (scan [] es)"
proof -
  have "mset (scan [] [([], Dir es)]) = mset (scan [] [([], Dir es')])"
    using assms by (rule reordered_mset)
  then show ?thesis
    by (simp add: join_path_def)
qed

lemma scan_update_manifest:
  "scan rel (AList.update ''manifest.json'' t es) = scan rel (AList.delete ''manifest.json'' es)"
proof (induction es)
  case Nil
  then show ?case by (cases t) simp_all
next
  case (Cons e es)
  obtain n c where e: "e = (n, c)" by (cases e)
  show ?case
  proof (cases "n = ''manifest.json''")
    case True
    have "scan rel ((''manifest.json'', t) # es) = scan rel es"
      by (cases t) simp_all
    moreover have "scan rel (AList.delete ''manifest.json'' es) = scan rel es"
      by (induction rel es rule: scan.induct) simp_all
    ultimately show ?thesis
      using True e by simp
  next
    case False
    with Cons e show ?thesis
      by (cases c) simp_all
  qed
qed

text \<open>
  Claim C5, as amended. Let the comparator of the sort be a linear order on the relative paths
  of the hashed files, and let no two of these files have the same relative path. Then the
  directory hash depends only on the set of pairs of relative path and content of the files
  that have no \<^verbatim>\<open>manifest.json\<close> on their path; it is the same for every order of the directory
  entries; it is the digest of \<open>relativePath + NUL + content\<close> over these files sorted by
  relative path in the order of the comparator; and it is the same whatever the manifest file
  holds, and whether it is there or not.
\<close>

theorem directory_hash_depends_only_on_hashed_files:
  assumes "linearOn (relPaths es) le"
    and "distinct (relPaths es)" and "distinct (relPaths es')"
  shows "(hashedFiles es' = hashedFiles es \<longrightarrow>
            computeDirectoryHash md5 le (Some (Dir es')) = computeDirectoryHash md5 le (Some (Dir es)))
       \<and> (reordered (Dir es) t \<longrightarrow>
            computeDirectoryHash md5 le (Some t) = computeDirectoryHash md5 le (Some (Dir es)))
       \<and> (\<forall>fs. set fs = hashedFiles es \<and> distinct fs \<and> sorted_wrt (\<lambda>a b. le (fst a) (fst b)) fs \<longrightarrow>
            computeDirectoryHash md5 le (Some (Dir es)) = Some (md5 (digest_input fs)))
       \<and> computeDirectoryHash md5 le (Some (Dir (AList.update ''manifest.json'' (File m) es)))
           = computeDirectoryHash md5 le (Some (Dir (AList.delete ''manifest.json'' es)))"
proof (intro conjI impI allI)
  have lin: "linearOn (map fst (scan [] es)) le"
    using assms(1) by (simp add: relPaths_def)
  have dk: "distinct (map fst (scan [] es))"
    using assms(2) by (simp add: relPaths_def)
  have same_set: "sort_by le (scan [] es') = sort_by le (scan [] es)"
    if s: "set (scan [] es') = set (scan [] es)" and d: "distinct (map fst (scan [] es'))" for es'
  proof (rule sym, rule sort_by_unique [OF lin dk])
    have lin': "linearOn (map fst (scan [] es')) le"
      using lin s by (simp add: linearOn_cong [of "map fst (scan [] es')" "map fst (scan [] es)"])
    show "sorted_wrt (\<lambda>a b. le (fst a) (fst b)) (sort_by le (scan [] es'))"
      by (rule sorted_sort_by [OF lin']) simp
    have "distinct (map fst (sort_by le (scan [] es')))"
      using d by (rule distinct_keys_sort_by)
    then show "distinct (sort_by le (scan [] es'))"
      by (rule distinct_map [THEN iffD1, THEN conjunct1])
    show "set (sort_by le (scan [] es')) = set (scan [] es)"
      using s by (simp add: set_sort_by)
  qed
  {
    assume "hashedFiles es' = hashedFiles es"
    then have "set (scan [] es') = set (scan [] es)"
      by (simp add: set_scan_hashedFiles)
    moreover have "distinct (map fst (scan [] es'))"
      using assms(3) by (simp add: relPaths_def)
    ultimately have "sort_by le (scan [] es') = sort_by le (scan [] es)"
      by (rule same_set)
    then show "computeDirectoryHash md5 le (Some (Dir es')) = computeDirectoryHash md5 le (Some (Dir es))"
      by (simp add: computeDirectoryHash_def)
  }
  {
    assume r: "reordered (Dir es) t"
    then obtain es2 where t: "t = Dir es2"
      using reordered_Dir by blast
    from r t have m: "mset (scan [] es2) = mset (scan [] es)"
      using reordered_scan by blast
    then have "set (scan [] es2) = set (scan [] es)"
      by (rule mset_eq_setD)
    moreover have "mset (map fst (scan [] es2)) = mset (map fst (scan [] es))"
      using m by simp
    then have "distinct (map fst (scan [] es2))"
      using dk by (metis mset_eq_imp_distinct_iff)
    ultimately have "sort_by le (scan [] es2) = sort_by le (scan [] es)"
      by (rule same_set)
    then show "computeDirectoryHash md5 le (Some t) = computeDirectoryHash md5 le (Some (Dir es))"
      by (simp add: computeDirectoryHash_def t)
  }
  {
    fix fs
    assume f: "set fs = hashedFiles es \<and> distinct fs \<and> sorted_wrt (\<lambda>a b. le (fst a) (fst b)) fs"
    have "sort_by le (scan [] es) = fs"
      using f by (intro sort_by_unique [OF lin dk]) (simp_all add: set_scan_hashedFiles)
    then show "computeDirectoryHash md5 le (Some (Dir es)) = Some (md5 (digest_input fs))"
      by (simp add: computeDirectoryHash_def)
  }
  show "computeDirectoryHash md5 le (Some (Dir (AList.update ''manifest.json'' (File m) es)))
           = computeDirectoryHash md5 le (Some (Dir (AList.delete ''manifest.json'' es)))"
    by (simp add: computeDirectoryHash_def scan_update_manifest)
qed

text \<open>
  Claim C5 as stated fails in the order of the sort, which is that of \<^verbatim>\<open>localeCompare\<close> and not
  the lexicographic order of the strings: in a skill directory with \<^verbatim>\<open>SKILL.md\<close> and \<^verbatim>\<open>b.md\<close>
  the code hashes \<^verbatim>\<open>b.md\<close> first, the lexicographic order has \<^verbatim>\<open>SKILL.md\<close> first, and the two
  digests are not the same. (MD5 is the identity here.)
\<close>

theorem directory_hash_not_in_lexicographic_order:
  "set [(''SKILL.md'', ''S''), (''b.md'', ''B''), (''sub/c.txt'', ''C'')] = set (scan [] skillDir)
   \<and> sorted_wrt (\<lambda>a b. lexicographic (fst a) (fst b))
         [(''SKILL.md'', ''S''), (''b.md'', ''B''), (''sub/c.txt'', ''C'')]
   \<and> computeDirectoryHash (\<lambda>s. s) caseFolded (Some (Dir skillDir))
       = Some (digest_input [(''b.md'', ''B''), (''SKILL.md'', ''S''), (''sub/c.txt'', ''C'')])
   \<and> computeDirectoryHash (\<lambda>s. s) caseFolded (Some (Dir skillDir))
       \<noteq> Some (digest_input [(''SKILL.md'', ''S''), (''b.md'', ''B''), (''sub/c.txt'', ''C'')])"
  by code_simp

text \<open>The amended claim at this directory, with the order that folds the case of letters.\<close>

theorem directory_hash_witness:
  "linearOn (relPaths skillDir) caseFolded
   \<and> distinct (relPaths skillDir) \<and> distinct (relPaths skillDirOtherOrder)
   \<and> hashedFiles skillDirOtherOrder = hashedFiles skillDir
   \<and> computeDirectoryHash (\<lambda>s. s) caseFolded (Some (Dir skillDirOtherOrder))
       = computeDirectoryHash (\<lambda>s. s) caseFolded (Some (Dir skillDir))
   \<and> computeDirectoryHash (\<lambda>s. s) caseFolded (Some (Dir skillDir))
       = Some (digest_input [(''b.md'', ''B''), (''SKILL.md'', ''S''), (''sub/c.txt'', ''C'')])"
proof -
  have h1: "linearOn (relPaths skillDir) caseFolded"
    by code_simp
  have h2: "distinct (relPaths skillDir)"
    by code_simp
  have h3: "distinct (relPaths skillDirOtherOrder)"
    by code_simp
  have s1: "scan [] skillDir = [(''SKILL.md'', ''S''), (''sub/c.txt'', ''C''), (''b.md'', ''B'')]"
    by code_simp
  have s2: "scan [] skillDirOtherOrder = [(''b.md'', ''B''), (''sub/c.txt'', ''C''), (''SKILL.md'', ''S'')]"
    by code_simp
  have e: "hashedFiles skillDirOtherOrder = hashedFiles skillDir"
    unfolding set_scan_hashedFiles [symmetric] s1 s2 by auto
  have srt: "sorted_wrt (\<lambda>a b. caseFolded (fst a) (fst b))
           [(''b.md'', ''B''), (''SKILL.md'', ''S''), (''sub/c.txt'', ''C'')]"
    by code_simp
  have f: "set [(''b.md'', ''B''), (''SKILL.md'', ''S''), (''sub/c.txt'', ''C'')] = hashedFiles skillDir
      \<and> distinct [(''b.md'', ''B''), (''SKILL.md'', ''S''), (''sub/c.txt'', ''C'')]
      \<and> sorted_wrt (\<lambda>a b. caseFolded (fst a) (fst b))
           [(''b.md'', ''B''), (''SKILL.md'', ''S''), (''sub/c.txt'', ''C'')]"
    unfolding set_scan_hashedFiles [symmetric] s1 using srt by auto
  note t = directory_hash_depends_only_on_hashed_files [OF h1 h2 h3, of "\<lambda>s. s"]
  have a: "computeDirectoryHash (\<lambda>s. s) caseFolded (Some (Dir skillDirOtherOrder))
       = computeDirectoryHash (\<lambda>s. s) caseFolded (Some (Dir skillDir))"
    by (rule t [THEN conjunct1, THEN mp, OF e])
  have b: "computeDirectoryHash (\<lambda>s. s) caseFolded (Some (Dir skillDir))
       = Some (digest_input [(''b.md'', ''B''), (''SKILL.md'', ''S''), (''sub/c.txt'', ''C'')])"
    by (rule t [THEN conjunct2, THEN conjunct2, THEN conjunct1, THEN spec, THEN mp, OF f])
  show ?thesis
    by (intro conjI h1 h2 h3 e a b)
qed

section \<open>Properties of a repeated sync\<close>

text \<open>
  Claim C4 does not hold of the code. The first run installs the selected skill \<open>app\<close>, the
  skill \<open>lib\<close> that it requires and the hook \<open>notify\<close>, and leaves all three with the status
  installed. The second run, with the same selection and the same answers, copies \<open>lib\<close> again
  and writes the ledger (the loop over the auto-resolved skills does not look at the status),
  then removes \<open>lib\<close> from the project as an installed skill that is not selected, and writes
  the settings document and the ledger for the hook. After it \<open>lib\<close> is no longer there and
  has the status available, although \<open>app\<close> requires it and the ledger still lists it as a
  dependency of \<open>app\<close>. When the user selects \<open>lib\<close> as well in the second run (the list shows
  it checked), nothing is copied or removed and nothing is reported, and the settings document
  and the ledger are still written for the hook.
\<close>

theorem second_run_removes_required_dependency:
  "map_option fst (runWith selection freshProject)
     = Some \<lparr> installed = [''app'', ''notify''], updated = [], removed = [],
              depsAdded = [''lib (skill)''], depsRemoved = [] \<rparr>
   \<and> map cstatus (addStatusToComponents id caseFolded sameText allSet afterFirstRun
          [skillApp, skillLib, hookNotify]) = [Installed, Installed, Installed]
   \<and> map_option fst (runWith selection afterFirstRun)
     = Some \<lparr> installed = [], updated = [], removed = [''lib''],
              depsAdded = [''lib (skill)''], depsRemoved = [] \<rparr>
   \<and> writes afterSecondRun
     = writes afterFirstRun @ [CopyTo ''.claude/skills/lib'', WriteLedger,
                               Remove ''.claude/skills/lib'', WriteLedger,
                               WriteSettings, WriteLedger]
   \<and> files afterFirstRun ''.claude/skills/lib'' = Some (Dir [(''SKILL.md'', File ''Helpers.'')])
   \<and> files afterSecondRun ''.claude/skills/lib'' = None
   \<and> map cstatus (addStatusToComponents id caseFolded sameText allSet afterSecondRun
          [skillApp, skillLib, hookNotify]) = [Installed, Available, Installed]
   \<and> map_option requiredBy (trackedDependency (ledgerFile afterSecondRun) ''skills'' ''lib'')
     = Some [''app'']
   \<and> map_option (\<lambda>r. (fst r, writes (snd r))) (runWith ((''skills'', ''lib'') # selection) afterFirstRun)
     = Some (\<lparr> installed = [], updated = [], removed = [], depsAdded = [], depsRemoved = [] \<rparr>,
             writes afterFirstRun @ [WriteSettings, WriteLedger])"
proof (intro conjI)
  show "map_option fst (runWith selection freshProject)
     = Some \<lparr> installed = [''app'', ''notify''], updated = [], removed = [],
              depsAdded = [''lib (skill)''], depsRemoved = [] \<rparr>"
    by code_simp
  show "map cstatus (addStatusToComponents id caseFolded sameText allSet afterFirstRun
          [skillApp, skillLib, hookNotify]) = [Installed, Installed, Installed]"
    by code_simp
  show "map_option fst (runWith selection afterFirstRun)
     = Some \<lparr> installed = [], updated = [], removed = [''lib''],
              depsAdded = [''lib (skill)''], depsRemoved = [] \<rparr>"
    by code_simp
  show "writes afterSecondRun
     = writes afterFirstRun @ [CopyTo ''.claude/skills/lib'', WriteLedger,
                               Remove ''.claude/skills/lib'', WriteLedger,
                               WriteSettings, WriteLedger]"
    by code_simp
  show "files afterFirstRun ''.claude/skills/lib'' = Some (Dir [(''SKILL.md'', File ''Helpers.'')])"
    by code_simp
  show "files afterSecondRun ''.claude/skills/lib'' = None"
    by code_simp
  show "map cstatus (addStatusToComponents id caseFolded sameText allSet afterSecondRun
          [skillApp, skillLib, hookNotify]) = [Installed, Available, Installed]"
    by code_simp
  show "map_option requiredBy (trackedDependency (ledgerFile afterSecondRun) ''skills'' ''lib'')
     = Some [''app'']"
    by code_simp
  show "map_option (\<lambda>r. (fst r, writes (snd r))) (runWith ((''skills'', ''lib'') # selection) afterFirstRun)
     = Some (\<lparr> installed = [], updated = [], removed = [], depsAdded = [], depsRemoved = [] \<rparr>,
             writes afterFirstRun @ [WriteSettings, WriteLedger])"
    by code_simp
qed

end
